theory Spec2Isabelle
  imports Main "HOL-Library.AList"
begin

section \<open>JavaScript values and the objects of the Firestore SDK\<close>

text \<open>
  The adapters of \<^verbatim>\<open>firestore.ts\<close> never compute on document data: they pass it
  on. The values below are the ones a document can hold. An object is its list of
  properties in insertion order; a number is an integer here, since nothing in the adapters
  does arithmetic.
\<close>

datatype firestore = Firestore string

datatype docref = DocumentReference (ref_firestore: firestore) (ref_path: string) (ref_id: string)

datatype colref = CollectionReference firestore string | Query firestore string

datatype jsval =
    Undefined
  | Null
  | JBool bool
  | JNum int
  | JStr string
  | JRef docref
  | JArr "jsval list"
  | JObj "(string \<times> jsval) list"

type_synonym DocumentData = "(string \<times> jsval) list"

text \<open>
  \<^verbatim>\<open>DocumentSnapshot.data()\<close> is \<^verbatim>\<open>DocumentData | undefined\<close> (undefined when the
  document does not exist); \<^verbatim>\<open>QueryDocumentSnapshot.data()\<close> is always an object.
\<close>

datatype DocumentSnapshot = DocumentSnapshot (data: "DocumentData option")

datatype QueryDocumentSnapshot =
  QueryDocumentSnapshot (qid: string) (qref: docref) (qdata: DocumentData)

datatype QuerySnapshot = QuerySnapshot (docs: "QueryDocumentSnapshot list")

datatype snapshot = DocSnap DocumentSnapshot | QuerySnap QuerySnapshot

datatype error = FirestoreError | TypeError

text \<open>
  The SDK functions \<^verbatim>\<open>doc\<close> and \<^verbatim>\<open>collection\<close> are not part of the repository.
  They are parameters of the model; each may throw (an invalid path), which is the
  \<open>Inl\<close> result.
\<close>

record sdk =
  doc :: "firestore \<Rightarrow> string \<Rightarrow> error + docref"
  collection :: "firestore \<Rightarrow> string \<Rightarrow> error + colref"

datatype 'r path_or = Path string | Ref 'r

section \<open>The world: globalThis, the console and the listeners of the Firestore client\<close>

datatype target = DocTarget docref | ColTarget colref

text \<open>
  A listener of the client is the handle \<^verbatim>\<open>onSnapshot\<close> returned for it (its
  unsubscribe function), the reference it listens to, and the store whose \<^verbatim>\<open>set\<close>
  its callback closes over. \<open>cancelled\<close> records every invocation of an unsubscribe
  function, oldest first.
\<close>

record world =
  window :: bool
  console :: "string list"
  stores_made :: nat
  listeners :: "(nat \<times> target \<times> nat) list"
  onSnapshot_calls :: nat
  cancelled :: "nat list"

definition onSnapshot :: "target \<Rightarrow> nat \<Rightarrow> world \<Rightarrow> nat \<times> world" where
  "onSnapshot t owner w =
     (let h = onSnapshot_calls w
      in (h, w\<lparr>listeners := listeners w @ [(h, t, owner)], onSnapshot_calls := Suc h\<rparr>))"

definition vendor_unsubscribe :: "nat \<Rightarrow> world \<Rightarrow> world" where
  "vendor_unsubscribe h w =
     w\<lparr>listeners := filter (\<lambda>e. fst e \<noteq> h) (listeners w), cancelled := cancelled w @ [h]\<rparr>"

definition warn :: "string \<Rightarrow> world \<Rightarrow> world" where
  "warn msg w = w\<lparr>console := console w @ [msg]\<rparr>"

section \<open>The store contract of svelte/store\<close>

text \<open>
  \<^verbatim>\<open>writable(value, start)\<close> of svelte/store, by its documented contract: \<open>start\<close>
  is called when the number of subscribers goes from zero to one and returns the function
  called when it goes back to zero; \<open>subscribe\<close> calls the subscriber at once with the
  current value and returns the function that removes it; \<open>set\<close> stores a value that
  differs from the current one (any object counts as different) and calls every subscriber
  with it while the store is started.

  A start function is one of the three closures the adapters pass: none, the one of
  \<^verbatim>\<open>docStore\<close>, the one of \<^verbatim>\<open>collectionStore\<close>. The closure variable
  \<^verbatim>\<open>unsubscribe\<close> of the adapter lives with the store it was declared for.
  A call of a subscriber is a pair of the subscriber and the value passed.
\<close>

datatype notifier = Noop | DocNotifier docref | ColNotifier colref

datatype stopper = StopNoop | StopUnsubscribe

record writable =
  sid :: nat
  val :: jsval
  start :: notifier
  subscribers :: "nat list"
  created :: nat
  stop :: "stopper option"
  unsubscribe :: "nat option"

type_synonym calls = "(nat \<times> jsval) list"

definition writable :: "jsval \<Rightarrow> notifier \<Rightarrow> world \<Rightarrow> writable \<times> world" where
  "writable v st w =
     (\<lparr>sid = stores_made w, val = v, start = st, subscribers = [], created = 0,
       stop = None, unsubscribe = None\<rparr>,
      w\<lparr>stores_made := Suc (stores_made w)\<rparr>)"

fun is_object :: "jsval \<Rightarrow> bool" where
  "is_object (JRef _) = True"
| "is_object (JArr _) = True"
| "is_object (JObj _) = True"
| "is_object _ = False"

definition safe_not_equal :: "jsval \<Rightarrow> jsval \<Rightarrow> bool" where
  "safe_not_equal a b = (a \<noteq> b \<or> is_object a)"

definition set_value :: "jsval \<Rightarrow> writable \<Rightarrow> writable \<times> calls" where
  "set_value new_value s =
     (if safe_not_equal (val s) new_value
      then (s\<lparr>val := new_value\<rparr>,
            if stop s = None then [] else map (\<lambda>k. (k, new_value)) (subscribers s))
      else (s, []))"

text \<open>The start functions: what the adapters pass as second argument of \<^verbatim>\<open>writable\<close>.\<close>

definition run_start :: "writable \<Rightarrow> world \<Rightarrow> writable \<times> world" where
  "run_start s w =
     (case start s of
        Noop \<Rightarrow> (s\<lparr>stop := Some StopNoop\<rparr>, w)
      | DocNotifier docRef \<Rightarrow>
          (let (h, w') = onSnapshot (DocTarget docRef) (sid s) w
           in (s\<lparr>unsubscribe := Some h, stop := Some StopUnsubscribe\<rparr>, w'))
      | ColNotifier colRef \<Rightarrow>
          (let (h, w') = onSnapshot (ColTarget colRef) (sid s) w
           in (s\<lparr>unsubscribe := Some h, stop := Some StopUnsubscribe\<rparr>, w')))"

text \<open>
  \<^verbatim>\<open>() => unsubscribe()\<close>: calling the variable while it is still undefined is a
  TypeError.
\<close>

definition run_stop :: "stopper \<Rightarrow> writable \<Rightarrow> world \<Rightarrow> error + world" where
  "run_stop st s w =
     (case st of
        StopNoop \<Rightarrow> Inr w
      | StopUnsubscribe \<Rightarrow>
          (case unsubscribe s of
             None \<Rightarrow> Inl TypeError
           | Some h \<Rightarrow> Inr (vendor_unsubscribe h w)))"

definition subscribe :: "writable \<Rightarrow> world \<Rightarrow> nat \<times> writable \<times> world \<times> calls" where
  "subscribe s w =
     (let k = created s;
          s1 = s\<lparr>subscribers := subscribers s @ [k], created := Suc k\<rparr>;
          (s2, w2) = (if length (subscribers s1) = 1 then run_start s1 w else (s1, w))
      in (k, s2, w2, [(k, val s2)]))"

definition unsubscriber :: "nat \<Rightarrow> writable \<Rightarrow> world \<Rightarrow> error + (writable \<times> world)" where
  "unsubscriber k s w =
     (let s1 = s\<lparr>subscribers := removeAll k (subscribers s)\<rparr>
      in if subscribers s1 = []
         then (case stop s1 of
                 None \<Rightarrow> Inr (s1, w)
               | Some st \<Rightarrow>
                   (case run_stop st s1 w of
                      Inl e \<Rightarrow> Inl e
                    | Inr w' \<Rightarrow> Inr (s1\<lparr>stop := None\<rparr>, w')))
         else Inr (s1, w))"

section \<open>The snapshot callbacks of the adapters\<close>

text \<open>\<^verbatim>\<open>(snapshot.data() as T) ?? null\<close>\<close>

definition doc_callback_value :: "DocumentSnapshot \<Rightarrow> jsval" where
  "doc_callback_value snapshot = (case data snapshot of None \<Rightarrow> Null | Some d \<Rightarrow> JObj d)"

text \<open>
  An object literal with a spread: the properties written first, then each property of the
  spread object in its order, replacing the value of a key already there.
\<close>

definition spread :: "DocumentData \<Rightarrow> DocumentData \<Rightarrow> DocumentData" where
  "spread base d = fold (\<lambda>(k, v). AList.update k v) d base"

text \<open>\<^verbatim>\<open>{ id: s.id, ref: s.ref, ...s.data() }\<close>\<close>

definition col_record :: "QueryDocumentSnapshot \<Rightarrow> jsval" where
  "col_record s = JObj (spread [(''id'', JStr (qid s)), (''ref'', JRef (qref s))] (qdata s))"

definition col_callback_value :: "QuerySnapshot \<Rightarrow> jsval" where
  "col_callback_value snapshot = JArr (map col_record (docs snapshot))"

text \<open>
  The client delivers a snapshot to a listener it still holds: the callback of that
  listener runs, which is the one the store's start function registered. A document
  listener receives document snapshots, a collection or query listener query snapshots.
  The client calls the callback some time after \<^verbatim>\<open>onSnapshot\<close> returned, never
  inside it, so delivery is an event of its own.
\<close>

definition deliver :: "nat \<Rightarrow> snapshot \<Rightarrow> writable \<Rightarrow> world \<Rightarrow> writable \<times> calls" where
  "deliver h snap s w =
     (case find (\<lambda>e. fst e = h) (listeners w) of
        None \<Rightarrow> (s, [])
      | Some (_, t, owner) \<Rightarrow>
          if owner \<noteq> sid s then (s, [])
          else (case (start s, t, snap) of
                  (DocNotifier _, DocTarget _, DocSnap d) \<Rightarrow> set_value (doc_callback_value d) s
                | (ColNotifier _, ColTarget _, QuerySnap q) \<Rightarrow> set_value (col_callback_value q) s
                | _ \<Rightarrow> (s, [])))"

section \<open>Runs of one store\<close>

text \<open>
  What can happen to a store once an adapter has returned it: a subscriber arrives, the
  unsubscriber of subscriber \<open>k\<close> is called, the client delivers a snapshot to listener
  \<open>h\<close>. A run threads the store and the world through a list of such events and
  collects the calls of subscribers; it stops at the first error. Nothing but the store
  under study registers or cancels listeners during a run.
\<close>

datatype event = Subscribe | Unsubscribe nat | Snapshot nat snapshot

fun step :: "event \<Rightarrow> writable \<times> world \<Rightarrow> error + (writable \<times> world) \<times> calls" where
  "step Subscribe (s, w) = (case subscribe s w of (k, s', w', cs) \<Rightarrow> Inr ((s', w'), cs))"
| "step (Unsubscribe k) (s, w) =
     (case unsubscriber k s w of Inl e \<Rightarrow> Inl e | Inr (s', w') \<Rightarrow> Inr ((s', w'), []))"
| "step (Snapshot h snap) (s, w) = (case deliver h snap s w of (s', cs) \<Rightarrow> Inr ((s', w), cs))"

fun run :: "event list \<Rightarrow> writable \<times> world \<Rightarrow> error + (writable \<times> world) \<times> calls" where
  "run [] st = Inr (st, [])"
| "run (e # es) st =
     (case step e st of
        Inl err \<Rightarrow> Inl err
      | Inr (st', cs) \<Rightarrow>
          (case run es st' of
             Inl err \<Rightarrow> Inl err
           | Inr (st'', cs') \<Rightarrow> Inr (st'', cs @ cs')))"

section \<open>The adapters\<close>

definition not_initialized :: string where
  "not_initialized =
     ''Firestore is not initialized. Are you missing FirebaseApp as a parent component?''"

text \<open>
  The objects the adapters return. The \<^verbatim>\<open>subscribe\<close> of such an object is a method
  of the store made by \<^verbatim>\<open>writable\<close>: the field holds that store as it is made, and
  the operations above act on it.
\<close>

record DocStore =
  subscribe_d :: writable
  ref_d :: "docref option"
  id_d :: string

record CollectionStore =
  subscribe_c :: writable
  ref_c :: "colref option"

text \<open>
  \<^verbatim>\<open>getFirebaseContext\<close> lives in \<^verbatim>\<open>sdk.js\<close>, which is not among the sources: the
  context it returns is a parameter.
\<close>

record FirebaseSDKContext =
  ctx_firestore :: "firestore option"

text \<open>
  \<^verbatim>\<open>const docRef = typeof ref === "string" ? doc(firestore, ref) : ref\<close> and
  \<^verbatim>\<open>const colRef = typeof ref === "string" ? collection(firestore, ref) : ref\<close>
\<close>

definition resolve_docRef :: "sdk \<Rightarrow> firestore \<Rightarrow> docref path_or \<Rightarrow> error + docref" where
  "resolve_docRef v firestore r = (case r of Path p \<Rightarrow> doc v firestore p | Ref d \<Rightarrow> Inr d)"

definition resolve_colRef :: "sdk \<Rightarrow> firestore \<Rightarrow> colref path_or \<Rightarrow> error + colref" where
  "resolve_colRef v firestore r = (case r of Path p \<Rightarrow> collection v firestore p | Ref c \<Rightarrow> Inr c)"

text \<open>\<^verbatim>\<open>docStore\<close> of \<^verbatim>\<open>src/lib/stores/firestore.ts\<close>.\<close>

definition docStore ::
  "sdk \<Rightarrow> FirebaseSDKContext \<Rightarrow> docref path_or \<Rightarrow> jsval \<Rightarrow> world \<Rightarrow> error + DocStore \<times> world"
where
  "docStore v getFirebaseContext r startWith w =
     (let firestore = ctx_firestore getFirebaseContext in
      if \<not> window w then
        (let (s, w') = writable startWith Noop w
         in Inr (\<lparr>subscribe_d = s, ref_d = None, id_d = ''''\<rparr>, w'))
      else case firestore of
        None \<Rightarrow>
          (let w1 = warn not_initialized w;
               (s, w') = writable Null Noop w1
           in Inr (\<lparr>subscribe_d = s, ref_d = None, id_d = ''''\<rparr>, w'))
      | Some fs \<Rightarrow>
          (case resolve_docRef v fs r of
             Inl e \<Rightarrow> Inl e
           | Inr docRef \<Rightarrow>
               (let (s, w') = writable startWith (DocNotifier docRef) w
                in Inr (\<lparr>subscribe_d = s, ref_d = Some docRef, id_d = ref_id docRef\<rparr>, w'))))"

text \<open>
  \<^verbatim>\<open>collectionStore\<close> of \<^verbatim>\<open>src/lib/stores/firestore.ts\<close>. The default
  \<^verbatim>\<open>startWith: T[] = []\<close> replaces an argument that is undefined.
\<close>

definition collectionStore ::
  "sdk \<Rightarrow> FirebaseSDKContext \<Rightarrow> colref path_or \<Rightarrow> jsval \<Rightarrow> world
     \<Rightarrow> error + CollectionStore \<times> world"
where
  "collectionStore v getFirebaseContext r startWith_arg w =
     (let startWith = (if startWith_arg = Undefined then JArr [] else startWith_arg);
          firestore = ctx_firestore getFirebaseContext in
      if \<not> window w then
        (let (s, w') = writable startWith Noop w
         in Inr (\<lparr>subscribe_c = s, ref_c = None\<rparr>, w'))
      else case firestore of
        None \<Rightarrow>
          (let w1 = warn not_initialized w;
               (s, w') = writable (JArr []) Noop w1
           in Inr (\<lparr>subscribe_c = s, ref_c = None\<rparr>, w'))
      | Some fs \<Rightarrow>
          (case resolve_colRef v fs r of
             Inl e \<Rightarrow> Inl e
           | Inr colRef \<Rightarrow>
               (let (s, w') = writable startWith (ColNotifier colRef) w
                in Inr (\<lparr>subscribe_c = s, ref_c = Some colRef\<rparr>, w'))))"

text \<open>
  The second source file of the repository, the one that also exports
  \<^verbatim>\<open>getCollectionValue\<close> and \<^verbatim>\<open>getDocValue\<close>, has the same two adapters
  taking the Firestore instance as first argument (\<open>docStore_p\<close> and
  \<open>collectionStore_p\<close> here); its \<^verbatim>\<open>collectionStore\<close> defaults
  \<^verbatim>\<open>startWith\<close> to undefined.
\<close>

definition docStore_p ::
  "sdk \<Rightarrow> firestore option \<Rightarrow> docref path_or \<Rightarrow> jsval \<Rightarrow> world \<Rightarrow> error + DocStore \<times> world"
where
  "docStore_p v firestore r startWith w =
     (if \<not> window w then
        (let (s, w') = writable startWith Noop w
         in Inr (\<lparr>subscribe_d = s, ref_d = None, id_d = ''''\<rparr>, w'))
      else case firestore of
        None \<Rightarrow>
          (let w1 = warn not_initialized w;
               (s, w') = writable Null Noop w1
           in Inr (\<lparr>subscribe_d = s, ref_d = None, id_d = ''''\<rparr>, w'))
      | Some fs \<Rightarrow>
          (case resolve_docRef v fs r of
             Inl e \<Rightarrow> Inl e
           | Inr docRef \<Rightarrow>
               (let (s, w') = writable startWith (DocNotifier docRef) w
                in Inr (\<lparr>subscribe_d = s, ref_d = Some docRef, id_d = ref_id docRef\<rparr>, w'))))"

definition collectionStore_p ::
  "sdk \<Rightarrow> firestore option \<Rightarrow> colref path_or \<Rightarrow> jsval \<Rightarrow> world
     \<Rightarrow> error + CollectionStore \<times> world"
where
  "collectionStore_p v firestore r startWith w =
     (if \<not> window w then
        (let (s, w') = writable startWith Noop w
         in Inr (\<lparr>subscribe_c = s, ref_c = None\<rparr>, w'))
      else case firestore of
        None \<Rightarrow>
          (let w1 = warn not_initialized w;
               (s, w') = writable (JArr []) Noop w1
           in Inr (\<lparr>subscribe_c = s, ref_c = None\<rparr>, w'))
      | Some fs \<Rightarrow>
          (case resolve_colRef v fs r of
             Inl e \<Rightarrow> Inl e
           | Inr colRef \<Rightarrow>
               (let (s, w') = writable startWith (ColNotifier colRef) w
                in Inr (\<lparr>subscribe_c = s, ref_c = Some colRef\<rparr>, w'))))"

text \<open>
  \<^verbatim>\<open>store.subscribe((val) => (value = val))()\<close>: the callback assigns each value it
  is called with to the local variable, which starts undefined.
\<close>

definition captured :: "calls \<Rightarrow> jsval" where
  "captured cs = fold (\<lambda>c _. snd c) cs Undefined"

definition getCollectionValue ::
  "sdk \<Rightarrow> firestore option \<Rightarrow> colref path_or \<Rightarrow> jsval \<Rightarrow> world \<Rightarrow> error + jsval \<times> world"
where
  "getCollectionValue v firestore r startWith w =
     (case collectionStore_p v firestore r startWith w of
        Inl e \<Rightarrow> Inl e
      | Inr (store, w1) \<Rightarrow>
          (case subscribe (subscribe_c store) w1 of
             (k, s, w2, cs) \<Rightarrow>
               (case unsubscriber k s w2 of
                  Inl e \<Rightarrow> Inl e
                | Inr (s', w3) \<Rightarrow> Inr (captured cs, w3))))"

definition getDocValue ::
  "sdk \<Rightarrow> firestore option \<Rightarrow> docref path_or \<Rightarrow> jsval \<Rightarrow> world \<Rightarrow> error + jsval \<times> world"
where
  "getDocValue v firestore r startWith w =
     (case docStore_p v firestore r startWith w of
        Inl e \<Rightarrow> Inl e
      | Inr (store, w1) \<Rightarrow>
          (case subscribe (subscribe_d store) w1 of
             (k, s, w2, cs) \<Rightarrow>
               (case unsubscriber k s w2 of
                  Inl e \<Rightarrow> Inl e
                | Inr (s', w3) \<Rightarrow> Inr (captured cs, w3))))"

section \<open>The derived store of the signed-in user's document\<close>











section \<open>Properties of stores\<close>

text \<open>
  A store with no start function: \<^verbatim>\<open>writable(value)\<close>. Its stop function, once it
  has subscribers, is the no-op.
\<close>

definition quiet :: "writable \<Rightarrow> bool" where
  "quiet s \<longleftrightarrow> start s = Noop \<and> stop s \<noteq> Some StopUnsubscribe"

fun notifier_target :: "notifier \<Rightarrow> target option" where
  "notifier_target Noop = None"
| "notifier_target (DocNotifier d) = Some (DocTarget d)"
| "notifier_target (ColNotifier c) = Some (ColTarget c)"

text \<open>The listeners the client holds for the callback of store \<open>s\<close>.\<close>

definition own :: "writable \<Rightarrow> world \<Rightarrow> (nat \<times> target \<times> nat) list" where
  "own s w = filter (\<lambda>e. snd (snd e) = sid s) (listeners w)"

text \<open>
  The invariant of a store of the live branch, listening to \<open>t\<close>: without subscribers it
  is stopped and the client holds no listener for it; with subscribers its stop function
  is \<^verbatim>\<open>() => unsubscribe()\<close>, the variable holds the handle of the latest
  \<^verbatim>\<open>onSnapshot\<close> call, and that listener is the only one the client holds for it.
\<close>

definition live_inv :: "target \<Rightarrow> writable \<Rightarrow> world \<Rightarrow> bool" where
  "live_inv t s w \<longleftrightarrow>
     notifier_target (start s) = Some t \<and>
     (case stop s of
        None \<Rightarrow> subscribers s = [] \<and> own s w = []
      | Some st \<Rightarrow>
          subscribers s \<noteq> [] \<and> st = StopUnsubscribe \<and>
          (case unsubscribe s of
             None \<Rightarrow> False
           | Some h \<Rightarrow> Suc h = onSnapshot_calls w \<and> own s w = [(h, t, sid s)]))"

text \<open>What an event does to the world when it meets a live store listening to \<open>t\<close>.\<close>

definition next_world :: "target \<Rightarrow> event \<Rightarrow> writable \<Rightarrow> world \<Rightarrow> world" where
  "next_world t e s w =
     (case e of
        Subscribe \<Rightarrow> if subscribers s = [] then snd (onSnapshot t (sid s) w) else w
      | Unsubscribe k \<Rightarrow>
          if subscribers s \<noteq> [] \<and> removeAll k (subscribers s) = []
          then (case unsubscribe s of None \<Rightarrow> w | Some h \<Rightarrow> vendor_unsubscribe h w)
          else w
      | Snapshot h snap \<Rightarrow> w)"

text \<open>The client is as it was: nothing registered, nothing cancelled.\<close>

definition untouched :: "world \<Rightarrow> world \<Rightarrow> bool" where
  "untouched w w' \<longleftrightarrow>
     listeners w' = listeners w \<and> onSnapshot_calls w' = onSnapshot_calls w \<and>
     cancelled w' = cancelled w"

text \<open>
  Whatever happens to the store (subscribers come and go, the client delivers snapshots),
  nothing fails, the world stays as it is, the store keeps the value \<open>x\<close>, and the calls
  of subscribers are one per subscription, each with \<open>x\<close>.
\<close>

definition emits_only :: "jsval \<Rightarrow> writable \<times> world \<Rightarrow> bool" where
  "emits_only x st \<longleftrightarrow>
     (\<forall>es. \<exists>s' cs. run es st = Inr ((s', snd st), cs) \<and> val s' = x \<and>
        map snd cs = replicate (count_list es Subscribe) x)"

text \<open>No listener of the client belongs to a store that is not made yet.\<close>

definition wf_world :: "world \<Rightarrow> bool" where
  "wf_world w \<longleftrightarrow> list_all (\<lambda>e. snd (snd e) < stores_made w) (listeners w)"

text \<open>The client holds listener \<open>h\<close>, and its callback is the one of store \<open>s\<close>.\<close>

definition holds :: "world \<Rightarrow> nat \<Rightarrow> writable \<Rightarrow> bool" where
  "holds w h s \<longleftrightarrow>
     (case find (\<lambda>e. fst e = h) (listeners w) of
        None \<Rightarrow> False
      | Some e \<Rightarrow> snd (snd e) = sid s)"

text \<open>\<^verbatim>\<open>snapshot.data()\<close> as a value.\<close>

definition data_value :: "DocumentSnapshot \<Rightarrow> jsval" where
  "data_value snapshot = (case data snapshot of None \<Rightarrow> Undefined | Some d \<Rightarrow> JObj d)"



text \<open>
  Registration is lazy: after any run of the store, an event registers a listener (on \<open>t\<close>,
  for this store, as the next \<^verbatim>\<open>onSnapshot\<close> call) exactly when it is a subscription
  that finds no subscriber; any other event makes no \<^verbatim>\<open>onSnapshot\<close> call and adds no
  listener. No event fails.
\<close>

definition registers_lazily :: "target \<Rightarrow> writable \<times> world \<Rightarrow> bool" where
  "registers_lazily t st \<longleftrightarrow>
     (\<forall>es e. \<exists>s w cs s' w' cs'.
        run es st = Inr ((s, w), cs) \<and> step e (s, w) = Inr ((s', w'), cs') \<and>
        (if e = Subscribe \<and> subscribers s = []
         then listeners w' = listeners w @ [(onSnapshot_calls w, t, sid s)] \<and>
              onSnapshot_calls w' = Suc (onSnapshot_calls w)
         else onSnapshot_calls w' = onSnapshot_calls w \<and>
              set (listeners w') \<subseteq> set (listeners w)))"

text \<open>
  Teardown: after any run of the store, an event that takes the subscribers from some to none
  invokes the unsubscribe function that the latest \<^verbatim>\<open>onSnapshot\<close> call returned, which
  is the one listener the client holds for the store, and the client holds none for it
  afterwards; no other event invokes an unsubscribe function. No event fails.
\<close>

definition tears_down :: "target \<Rightarrow> writable \<times> world \<Rightarrow> bool" where
  "tears_down t st \<longleftrightarrow>
     (\<forall>es e. \<exists>s w cs s' w' cs'.
        run es st = Inr ((s, w), cs) \<and> step e (s, w) = Inr ((s', w'), cs') \<and>
        (if subscribers s \<noteq> [] \<and> subscribers s' = []
         then \<exists>h. unsubscribe s = Some h \<and> Suc h = onSnapshot_calls w \<and>
                  own s w = [(h, t, sid s)] \<and>
                  cancelled w' = cancelled w @ [h] \<and>
                  listeners w' = filter (\<lambda>x. fst x \<noteq> h) (listeners w) \<and>
                  own s' w' = []
         else cancelled w' = cancelled w))"

text \<open>The events run on the store an adapter returned, and what a run shows.\<close>

definition run_d ::
  "event list \<Rightarrow> error + DocStore \<times> world \<Rightarrow> error + (writable \<times> world) \<times> calls" where
  "run_d es made = (case made of Inl e \<Rightarrow> Inl e | Inr (D, w) \<Rightarrow> run es (subscribe_d D, w))"

definition run_c ::
  "event list \<Rightarrow> error + CollectionStore \<times> world \<Rightarrow> error + (writable \<times> world) \<times> calls" where
  "run_c es made = (case made of Inl e \<Rightarrow> Inl e | Inr (C, w) \<Rightarrow> run es (subscribe_c C, w))"

definition values_passed :: "error + (writable \<times> world) \<times> calls \<Rightarrow> error + jsval list" where
  "values_passed res = (case res of Inl e \<Rightarrow> Inl e | Inr (st, cs) \<Rightarrow> Inr (map snd cs))"

definition final_world :: "error + (writable \<times> world) \<times> calls \<Rightarrow> error + world" where
  "final_world res = (case res of Inl e \<Rightarrow> Inl e | Inr ((s, w), cs) \<Rightarrow> Inr w)"

section \<open>Concrete inputs\<close>

text \<open>
  A stand-in for the SDK, a browser and a server, on which the adapters are evaluated:
  the stand-in rejects the empty path and names a document by its path.
\<close>

definition sample_sdk :: sdk where
  "sample_sdk =
     \<lparr>doc = (\<lambda>fs p. if p = [] then Inl FirestoreError else Inr (DocumentReference fs p p)),
      collection = (\<lambda>fs p. if p = [] then Inl FirestoreError else Inr (CollectionReference fs p))\<rparr>"

definition app :: firestore where
  "app = Firestore ''app''"

definition browser :: world where
  "browser = \<lparr>window = True, console = [], stores_made = 0, listeners = [],
              onSnapshot_calls = 0, cancelled = []\<rparr>"

definition server :: world where
  "server = \<lparr>window = False, console = [], stores_made = 0, listeners = [],
             onSnapshot_calls = 0, cancelled = []\<rparr>"

text \<open>
  A document and a collection of the stand-in, their stores as the adapters make them in the
  browser and as they are with one subscriber, and the browser after that registration.
\<close>

definition ada :: docref where
  "ada = DocumentReference app ''users/ada'' ''users/ada''"

definition ada_store :: "jsval \<Rightarrow> writable" where
  "ada_store x = \<lparr>sid = 0, val = x, start = DocNotifier ada, subscribers = [], created = 0,
                  stop = None, unsubscribe = None\<rparr>"

definition ada_active :: "jsval \<Rightarrow> writable" where
  "ada_active x = \<lparr>sid = 0, val = x, start = DocNotifier ada, subscribers = [0], created = 1,
                   stop = Some StopUnsubscribe, unsubscribe = Some 0\<rparr>"

definition users :: colref where
  "users = CollectionReference app ''users''"

definition users_store :: "jsval \<Rightarrow> writable" where
  "users_store x = \<lparr>sid = 0, val = x, start = ColNotifier users, subscribers = [], created = 0,
                    stop = None, unsubscribe = None\<rparr>"

definition users_active :: "jsval \<Rightarrow> writable" where
  "users_active x = \<lparr>sid = 0, val = x, start = ColNotifier users, subscribers = [0], created = 1,
                     stop = Some StopUnsubscribe, unsubscribe = Some 0\<rparr>"

definition listening :: "target \<Rightarrow> world" where
  "listening t = \<lparr>window = True, console = [], stores_made = 1, listeners = [(0, t, 0)],
                  onSnapshot_calls = 1, cancelled = []\<rparr>"

section \<open>Lemmas on stores\<close>

lemma docStore_eq: "docStore v ctx r sw w = docStore_p v (ctx_firestore ctx) r sw w"
  by (simp add: docStore_def docStore_p_def)

lemma collectionStore_eq:
  "collectionStore v ctx r sw w =
     collectionStore_p v (ctx_firestore ctx) r (if sw = Undefined then JArr [] else sw) w"
  by (simp add: collectionStore_def collectionStore_p_def)

lemma quiet_step:
  assumes "quiet s"
  shows "\<exists>s'. step e (s, w) = Inr ((s', w), if e = Subscribe then [(created s, val s)] else [])
           \<and> quiet s' \<and> val s' = val s"
proof (cases e)
  case Subscribe
  then show ?thesis using assms
    by (auto simp: quiet_def subscribe_def run_start_def Let_def)
next
  case (Unsubscribe k)
  then show ?thesis using assms
    by (cases "stop s"; cases "the (stop s)")
       (auto simp: quiet_def unsubscriber_def run_stop_def Let_def split: option.splits stopper.splits)
next
  case (Snapshot h snap)
  then show ?thesis using assms
    by (auto simp: quiet_def deliver_def split: option.splits prod.splits)
qed

lemma quiet_run:
  "quiet s \<Longrightarrow> \<exists>s' cs. run es (s, w) = Inr ((s', w), cs) \<and> quiet s' \<and> val s' = val s
     \<and> map snd cs = replicate (length (filter (\<lambda>e. e = Subscribe) es)) (val s)"
proof (induction es arbitrary: s)
  case Nil
  then show ?case by simp
next
  case (Cons e es)
  from quiet_step[OF Cons.prems, of e w] obtain s1 where
    s1: "step e (s, w) = Inr ((s1, w), if e = Subscribe then [(created s, val s)] else [])"
      "quiet s1" "val s1 = val s" by blast
  from Cons.IH[OF s1(2)] obtain s2 cs where
    s2: "run es (s1, w) = Inr ((s2, w), cs)" "quiet s2" "val s2 = val s1"
      "map snd cs = replicate (length (filter (\<lambda>e. e = Subscribe) es)) (val s1)" by blast
  show ?case using s1 s2 by auto
qed

lemma own_onSnapshot:
  "own s (snd (onSnapshot t (sid s) w)) = own s w @ [(onSnapshot_calls w, t, sid s)]"
  by (simp add: own_def onSnapshot_def Let_def)

lemma own_vendor_unsubscribe:
  "own s (vendor_unsubscribe h w) = filter (\<lambda>e. fst e \<noteq> h) (own s w)"
  by (simp add: own_def vendor_unsubscribe_def conj_commute)

lemma own_sid: "sid s' = sid s \<Longrightarrow> own s' w = own s w"
  by (simp add: own_def)

lemma live_subscribe:
  assumes "live_inv t s w"
  shows "\<exists>s'. subscribe s w = (created s, s', next_world t Subscribe s w, [(created s, val s)])
           \<and> live_inv t s' (next_world t Subscribe s w) \<and> sid s' = sid s \<and> val s' = val s
           \<and> subscribers s' = subscribers s @ [created s]
           \<and> unsubscribe s' = (if subscribers s = [] then Some (onSnapshot_calls w) else unsubscribe s)"
proof (cases "subscribers s = []")
  case True
  with assms have st: "stop s = None" "own s w = []"
    by (auto simp: live_inv_def split: option.splits)
  from assms obtain d c where "start s = DocNotifier d \<and> t = DocTarget d \<or> start s = ColNotifier c \<and> t = ColTarget c"
    by (cases "start s") (auto simp: live_inv_def)
  then show ?thesis using True st
    by (auto simp: subscribe_def run_start_def next_world_def live_inv_def own_def onSnapshot_def Let_def)
next
  case False
  with assms show ?thesis
    by (auto simp: subscribe_def next_world_def live_inv_def own_def Let_def split: option.splits)
qed

lemma live_unsubscriber:
  assumes "live_inv t s w"
  shows "\<exists>s'. unsubscriber k s w = Inr (s', next_world t (Unsubscribe k) s w)
           \<and> live_inv t s' (next_world t (Unsubscribe k) s w) \<and> sid s' = sid s \<and> val s' = val s
           \<and> subscribers s' = removeAll k (subscribers s)"
proof (cases "stop s")
  case None
  with assms have e: "subscribers s = []" "own s w = []"
    by (simp_all add: live_inv_def)
  have u: "unsubscriber k s w = Inr (s\<lparr>subscribers := []\<rparr>, w)"
    using None e(1) by (simp add: unsubscriber_def Let_def)
  have n: "next_world t (Unsubscribe k) s w = w"
    using e(1) by (simp add: next_world_def)
  have i: "live_inv t (s\<lparr>subscribers := []\<rparr>) w"
    using assms None e by (simp add: live_inv_def own_def)
  show ?thesis using u n i e(1) by simp
next
  case (Some st)
  with assms have h0: "st = StopUnsubscribe" "subscribers s \<noteq> []" "unsubscribe s \<noteq> None"
    by (auto simp: live_inv_def split: option.splits)
  then obtain h where h1: "unsubscribe s = Some h" by blast
  with assms Some have h2: "Suc h = onSnapshot_calls w" "own s w = [(h, t, sid s)]"
    by (simp_all add: live_inv_def)
  have tgt: "notifier_target (start s) = Some t"
    using assms by (simp add: live_inv_def)
  show ?thesis
  proof (cases "removeAll k (subscribers s) = []")
    case True
    have u: "unsubscriber k s w = Inr (s\<lparr>subscribers := [], stop := None\<rparr>, vendor_unsubscribe h w)"
      using True Some h0(1) h1 by (simp add: unsubscriber_def run_stop_def Let_def)
    have n: "next_world t (Unsubscribe k) s w = vendor_unsubscribe h w"
      using True h0(2) h1 by (simp add: next_world_def)
    have "own (s\<lparr>subscribers := [], stop := None\<rparr>) w = own s w"
      by (simp add: own_def)
    then have "own (s\<lparr>subscribers := [], stop := None\<rparr>) (vendor_unsubscribe h w) = []"
      using h2(2) by (simp add: own_vendor_unsubscribe)
    then have i: "live_inv t (s\<lparr>subscribers := [], stop := None\<rparr>) (vendor_unsubscribe h w)"
      using tgt by (simp add: live_inv_def)
    show ?thesis using u n i True by simp
  next
    case False
    have u: "unsubscriber k s w = Inr (s\<lparr>subscribers := removeAll k (subscribers s)\<rparr>, w)"
      using False by (simp add: unsubscriber_def Let_def)
    have n: "next_world t (Unsubscribe k) s w = w"
      using False by (simp add: next_world_def)
    have "own (s\<lparr>subscribers := removeAll k (subscribers s)\<rparr>) w = own s w"
      by (simp add: own_def)
    then have i: "live_inv t (s\<lparr>subscribers := removeAll k (subscribers s)\<rparr>) w"
      using tgt Some h0(1) h1 h2 False by (simp add: live_inv_def)
    show ?thesis using u n i by simp
  qed
qed

lemma set_value_val: "val (fst (set_value x s)) = x"
  by (auto simp: set_value_def safe_not_equal_def)

lemma set_value_rest:
  "sid (fst (set_value x s)) = sid s" "start (fst (set_value x s)) = start s"
  "subscribers (fst (set_value x s)) = subscribers s" "stop (fst (set_value x s)) = stop s"
  "unsubscribe (fst (set_value x s)) = unsubscribe s" "created (fst (set_value x s)) = created s"
  by (auto simp: set_value_def)

lemma deliver_rest:
  "sid (fst (deliver h snap s w)) = sid s" "start (fst (deliver h snap s w)) = start s"
  "subscribers (fst (deliver h snap s w)) = subscribers s" "stop (fst (deliver h snap s w)) = stop s"
  "unsubscribe (fst (deliver h snap s w)) = unsubscribe s"
  by (auto simp: deliver_def set_value_rest split: option.splits prod.splits notifier.splits target.splits snapshot.splits)

lemma live_deliver:
  assumes "live_inv t s w"
  shows "live_inv t (fst (deliver h snap s w)) w"
  using assms by (simp add: live_inv_def deliver_rest own_def split: option.splits)

lemma live_step:
  assumes "live_inv t s w"
  shows "\<exists>s' cs. step e (s, w) = Inr ((s', next_world t e s w), cs)
           \<and> live_inv t s' (next_world t e s w) \<and> sid s' = sid s"
proof (cases e)
  case Subscribe
  then show ?thesis using live_subscribe[OF assms] by auto
next
  case (Unsubscribe k)
  then show ?thesis using live_unsubscriber[OF assms, of k] by auto
next
  case (Snapshot h snap)
  then show ?thesis using live_deliver[OF assms, of h snap]
    by (cases "deliver h snap s w") (auto simp: next_world_def deliver_rest(1)[of h snap s w, symmetric] simp del: deliver_rest)
qed

lemma live_run:
  "live_inv t s w \<Longrightarrow> \<exists>s' w' cs. run es (s, w) = Inr ((s', w'), cs) \<and> live_inv t s' w' \<and> sid s' = sid s"
proof (induction es arbitrary: s w)
  case Nil
  then show ?case by simp
next
  case (Cons e es)
  from live_step[OF Cons.prems, of e] obtain s1 cs1 where
    s1: "step e (s, w) = Inr ((s1, next_world t e s w), cs1)"
      "live_inv t s1 (next_world t e s w)" "sid s1 = sid s" by blast
  from Cons.IH[OF s1(2)] obtain s2 w2 cs2 where
    "run es (s1, next_world t e s w) = Inr ((s2, w2), cs2)" "live_inv t s2 w2" "sid s2 = sid s1"
    by blast
  with s1 show ?case by auto
qed

section \<open>The fallback branches and the resolution of references\<close>

lemma quiet_emits_only: "quiet s \<Longrightarrow> val s = x \<Longrightarrow> emits_only x (s, w)"
proof -
  assume q: "quiet s" and v: "val s = x"
  have "\<exists>s' cs. run es (s, w) = Inr ((s', w), cs) \<and> val s' = x \<and>
          map snd cs = replicate (count_list es Subscribe) x" for es
  proof -
    have "count_list es Subscribe = length (filter (\<lambda>e. e = Subscribe) es)"
      by (induction es) auto
    with quiet_run[OF q, of es w] v show ?thesis by auto
  qed
  then show ?thesis by (simp add: emits_only_def)
qed

lemma writable_fields:
  "val (fst (writable x st w)) = x" "start (fst (writable x st w)) = st"
  "stop (fst (writable x st w)) = None" "subscribers (fst (writable x st w)) = []"
  "sid (fst (writable x st w)) = stores_made w" "unsubscribe (fst (writable x st w)) = None"
  "created (fst (writable x st w)) = 0"
  by (simp_all add: writable_def)

lemma writable_world:
  "snd (writable x st w) = w\<lparr>stores_made := Suc (stores_made w)\<rparr>"
  by (simp add: writable_def)

lemma quiet_writable: "quiet (fst (writable x Noop w))"
  by (simp add: quiet_def writable_fields)

lemma docStore_p_ssr:
  "\<not> window w \<Longrightarrow> docStore_p v f r sw w =
     Inr (\<lparr>subscribe_d = fst (writable sw Noop w), ref_d = None, id_d = ''''\<rparr>,
          w\<lparr>stores_made := Suc (stores_made w)\<rparr>)"
  by (simp add: docStore_p_def writable_def)

lemma collectionStore_p_ssr:
  "\<not> window w \<Longrightarrow> collectionStore_p v f r sw w =
     Inr (\<lparr>subscribe_c = fst (writable sw Noop w), ref_c = None\<rparr>,
          w\<lparr>stores_made := Suc (stores_made w)\<rparr>)"
  by (simp add: collectionStore_p_def writable_def)

lemma docStore_p_missing:
  "window w \<Longrightarrow> docStore_p v None r sw w =
     Inr (\<lparr>subscribe_d = fst (writable Null Noop w), ref_d = None, id_d = ''''\<rparr>,
          w\<lparr>console := console w @ [not_initialized], stores_made := Suc (stores_made w)\<rparr>)"
  by (simp add: docStore_p_def writable_def warn_def)

lemma collectionStore_p_missing:
  "window w \<Longrightarrow> collectionStore_p v None r sw w =
     Inr (\<lparr>subscribe_c = fst (writable (JArr []) Noop w), ref_c = None\<rparr>,
          w\<lparr>console := console w @ [not_initialized], stores_made := Suc (stores_made w)\<rparr>)"
  by (simp add: collectionStore_p_def writable_def warn_def)

lemma docStore_p_live:
  "window w \<Longrightarrow> docStore_p v (Some fs) r sw w =
     (case resolve_docRef v fs r of
        Inl e \<Rightarrow> Inl e
      | Inr d \<Rightarrow>
          Inr (\<lparr>subscribe_d = fst (writable sw (DocNotifier d) w), ref_d = Some d, id_d = ref_id d\<rparr>,
               w\<lparr>stores_made := Suc (stores_made w)\<rparr>))"
  by (simp add: docStore_p_def writable_def split: sum.splits)

lemma collectionStore_p_live:
  "window w \<Longrightarrow> collectionStore_p v (Some fs) r sw w =
     (case resolve_colRef v fs r of
        Inl e \<Rightarrow> Inl e
      | Inr c \<Rightarrow>
          Inr (\<lparr>subscribe_c = fst (writable sw (ColNotifier c) w), ref_c = Some c\<rparr>,
               w\<lparr>stores_made := Suc (stores_made w)\<rparr>))"
  by (simp add: collectionStore_p_def writable_def split: sum.splits)

text \<open>
  Claim C1. On a server (no \<^verbatim>\<open>globalThis.window\<close>) \<^verbatim>\<open>docStore\<close> and
  \<^verbatim>\<open>collectionStore\<close> return without touching the Firestore client; the reference of
  the store is null and the id of a document store is empty; and whatever happens to the store
  afterwards, no listener is ever registered and every value it passes to a subscriber is the
  \<^verbatim>\<open>startWith\<close> argument (the empty array for \<^verbatim>\<open>collectionStore\<close> of
  \<^verbatim>\<open>firestore.ts\<close> when the argument is undefined).
\<close>

theorem ssr_fallback:
  assumes "\<not> window w"
  shows
    "(\<exists>D w'. docStore v ctx r sw w = Inr (D, w') \<and> ref_d D = None \<and> id_d D = '''' \<and>
         untouched w w' \<and> console w' = console w \<and> emits_only sw (subscribe_d D, w')) \<and>
     (\<exists>D w'. docStore_p v f r sw w = Inr (D, w') \<and> ref_d D = None \<and> id_d D = '''' \<and>
         untouched w w' \<and> console w' = console w \<and> emits_only sw (subscribe_d D, w')) \<and>
     (\<exists>C w'. collectionStore v ctx q sw w = Inr (C, w') \<and> ref_c C = None \<and>
         untouched w w' \<and> console w' = console w \<and>
         emits_only (if sw = Undefined then JArr [] else sw) (subscribe_c C, w')) \<and>
     (\<exists>C w'. collectionStore_p v f q sw w = Inr (C, w') \<and> ref_c C = None \<and>
         untouched w w' \<and> console w' = console w \<and> emits_only sw (subscribe_c C, w'))"
proof -
  have e: "emits_only x (fst (writable x Noop w), w')" for x w'
    by (rule quiet_emits_only) (simp_all add: quiet_writable writable_fields)
  have d: "\<exists>D w'. docStore_p v g r sw w = Inr (D, w') \<and> ref_d D = None \<and> id_d D = '''' \<and>
         untouched w w' \<and> console w' = console w \<and> emits_only sw (subscribe_d D, w')" for g
    using assms e by (simp add: docStore_p_ssr untouched_def)
  have c: "\<exists>C w'. collectionStore_p v g q x w = Inr (C, w') \<and> ref_c C = None \<and>
         untouched w w' \<and> console w' = console w \<and> emits_only x (subscribe_c C, w')" for g x
    using assms e by (simp add: collectionStore_p_ssr untouched_def)
  show ?thesis
    using d[of "ctx_firestore ctx"] d[of f] c[of "ctx_firestore ctx"] c[of f]
    unfolding docStore_eq collectionStore_eq by blast
qed

text \<open>The server, a document store with a default and a collection store without one.\<close>

theorem ssr_fallback_witness:
  "\<not> window server \<and>
   (\<exists>D w'. docStore sample_sdk \<lparr>ctx_firestore = Some app\<rparr> (Path ''users/ada'') (JStr ''wait'') server
        = Inr (D, w') \<and> ref_d D = None \<and> id_d D = '''' \<and> untouched server w' \<and>
        emits_only (JStr ''wait'') (subscribe_d D, w')) \<and>
   (\<exists>C w'. collectionStore sample_sdk \<lparr>ctx_firestore = Some app\<rparr> (Path ''users'') Undefined server
        = Inr (C, w') \<and> ref_c C = None \<and> untouched server w' \<and>
        emits_only (JArr []) (subscribe_c C, w'))"
proof -
  have h: "\<not> window server" by (simp add: server_def)
  show ?thesis
    using h ssr_fallback[OF h, of sample_sdk "\<lparr>ctx_firestore = Some app\<rparr>" "Path ''users/ada''"
        "JStr ''wait''" "Some app" "Path ''users''"]
      ssr_fallback[OF h, of sample_sdk "\<lparr>ctx_firestore = Some app\<rparr>" "Path ''users/ada''"
        Undefined "Some app" "Path ''users''"]
    by auto
qed

text \<open>
  Claim C2. In a browser without a Firestore instance \<^verbatim>\<open>docStore\<close> and
  \<^verbatim>\<open>collectionStore\<close> return a store (the result is never an error), write the warning
  to the console and leave the Firestore client alone; the reference is null, and the only
  value the store ever has or passes on is null for a document store and the empty array for a
  collection store.
\<close>

theorem missing_sdk_fallback:
  assumes "window w"
  shows
    "(\<exists>D w'. docStore v \<lparr>ctx_firestore = None\<rparr> r sw w = Inr (D, w') \<and> ref_d D = None \<and>
         untouched w w' \<and> console w' = console w @ [not_initialized] \<and>
         emits_only Null (subscribe_d D, w')) \<and>
     (\<exists>D w'. docStore_p v None r sw w = Inr (D, w') \<and> ref_d D = None \<and>
         untouched w w' \<and> console w' = console w @ [not_initialized] \<and>
         emits_only Null (subscribe_d D, w')) \<and>
     (\<exists>C w'. collectionStore v \<lparr>ctx_firestore = None\<rparr> q sw w = Inr (C, w') \<and> ref_c C = None \<and>
         untouched w w' \<and> console w' = console w @ [not_initialized] \<and>
         emits_only (JArr []) (subscribe_c C, w')) \<and>
     (\<exists>C w'. collectionStore_p v None q sw w = Inr (C, w') \<and> ref_c C = None \<and>
         untouched w w' \<and> console w' = console w @ [not_initialized] \<and>
         emits_only (JArr []) (subscribe_c C, w'))"
proof -
  have e: "emits_only x (fst (writable x Noop w), w')" for x w'
    by (rule quiet_emits_only) (simp_all add: quiet_writable writable_fields)
  have d: "\<exists>D w'. docStore_p v None r sw w = Inr (D, w') \<and> ref_d D = None \<and>
         untouched w w' \<and> console w' = console w @ [not_initialized] \<and>
         emits_only Null (subscribe_d D, w')"
    using assms e by (simp add: docStore_p_missing untouched_def)
  have c: "\<exists>C w'. collectionStore_p v None q x w = Inr (C, w') \<and> ref_c C = None \<and>
         untouched w w' \<and> console w' = console w @ [not_initialized] \<and>
         emits_only (JArr []) (subscribe_c C, w')" for x
    using assms e by (simp add: collectionStore_p_missing untouched_def)
  show ?thesis
    using d c[of sw] c[of "if sw = Undefined then JArr [] else sw"]
    unfolding docStore_eq collectionStore_eq by simp
qed

text \<open>The browser without an instance.\<close>

theorem missing_sdk_fallback_witness:
  "window browser \<and>
   (\<exists>D w'. docStore sample_sdk \<lparr>ctx_firestore = None\<rparr> (Path ''users/ada'') (JStr ''wait'') browser
        = Inr (D, w') \<and> ref_d D = None \<and> untouched browser w' \<and>
        console w' = console browser @ [not_initialized] \<and> emits_only Null (subscribe_d D, w')) \<and>
   (\<exists>C w'. collectionStore sample_sdk \<lparr>ctx_firestore = None\<rparr> (Path ''users'') (JArr [JNum 1]) browser
        = Inr (C, w') \<and> ref_c C = None \<and> untouched browser w' \<and>
        console w' = console browser @ [not_initialized] \<and>
        emits_only (JArr []) (subscribe_c C, w'))"
proof -
  have h: "window browser" by (simp add: browser_def)
  show ?thesis
    using h missing_sdk_fallback[OF h, of sample_sdk "Path ''users/ada''" "JStr ''wait''"
        "Path ''users''"]
      missing_sdk_fallback[OF h, of sample_sdk "Path ''users/ada''" "JArr [JNum 1]" "Path ''users''"]
    by auto
qed

text \<open>
  Claim C3. In the live branch a path is resolved by \<^verbatim>\<open>doc(firestore, ref)\<close>
  (\<^verbatim>\<open>collection(firestore, ref)\<close> for a collection store) and the reference obtained is
  the \<^verbatim>\<open>ref\<close> of the store; when the SDK rejects the path its error is the result.
  A reference or query given as argument is the \<^verbatim>\<open>ref\<close> of the store as it is.
\<close>

theorem path_resolution:
  assumes "window w"
  shows
    "(case doc v fs p of
        Inl e \<Rightarrow> docStore v \<lparr>ctx_firestore = Some fs\<rparr> (Path p) sw w = Inl e \<and>
                 docStore_p v (Some fs) (Path p) sw w = Inl e
      | Inr d \<Rightarrow>
          (\<exists>D w'. docStore v \<lparr>ctx_firestore = Some fs\<rparr> (Path p) sw w = Inr (D, w') \<and>
                   ref_d D = Some d) \<and>
          (\<exists>D w'. docStore_p v (Some fs) (Path p) sw w = Inr (D, w') \<and> ref_d D = Some d)) \<and>
     (\<exists>D w'. docStore v \<lparr>ctx_firestore = Some fs\<rparr> (Ref d0) sw w = Inr (D, w') \<and>
              ref_d D = Some d0) \<and>
     (\<exists>D w'. docStore_p v (Some fs) (Ref d0) sw w = Inr (D, w') \<and> ref_d D = Some d0) \<and>
     (case collection v fs p of
        Inl e \<Rightarrow> collectionStore v \<lparr>ctx_firestore = Some fs\<rparr> (Path p) sw w = Inl e \<and>
                 collectionStore_p v (Some fs) (Path p) sw w = Inl e
      | Inr c \<Rightarrow>
          (\<exists>C w'. collectionStore v \<lparr>ctx_firestore = Some fs\<rparr> (Path p) sw w = Inr (C, w') \<and>
                   ref_c C = Some c) \<and>
          (\<exists>C w'. collectionStore_p v (Some fs) (Path p) sw w = Inr (C, w') \<and>
                   ref_c C = Some c)) \<and>
     (\<exists>C w'. collectionStore v \<lparr>ctx_firestore = Some fs\<rparr> (Ref c0) sw w = Inr (C, w') \<and>
              ref_c C = Some c0) \<and>
     (\<exists>C w'. collectionStore_p v (Some fs) (Ref c0) sw w = Inr (C, w') \<and> ref_c C = Some c0)"
  using assms
  by (simp add: docStore_eq collectionStore_eq docStore_p_live collectionStore_p_live
      resolve_docRef_def resolve_colRef_def split: sum.splits)

text \<open>A path, the rejected empty path, and a query.\<close>

theorem path_resolution_witness:
  "window browser \<and>
   (\<exists>D w'. docStore sample_sdk \<lparr>ctx_firestore = Some app\<rparr> (Path ''users/ada'') Undefined browser
        = Inr (D, w') \<and> ref_d D = Some (DocumentReference app ''users/ada'' ''users/ada'')) \<and>
   docStore sample_sdk \<lparr>ctx_firestore = Some app\<rparr> (Path []) Undefined browser
        = Inl FirestoreError \<and>
   (\<exists>C w'. collectionStore sample_sdk \<lparr>ctx_firestore = Some app\<rparr> (Ref (Query app ''adults''))
        Undefined browser = Inr (C, w') \<and> ref_c C = Some (Query app ''adults''))"
proof -
  have h: "window browser" by (simp add: browser_def)
  show ?thesis
    using h path_resolution[OF h, of sample_sdk app "''users/ada''" Undefined
        "DocumentReference app ''x'' ''x''" "Query app ''adults''"]
      path_resolution[OF h, of sample_sdk app "[]" Undefined
        "DocumentReference app ''x'' ''x''" "Query app ''adults''"]
    by (simp add: sample_sdk_def)
qed

text \<open>
  Claim C9 says that without a Firestore instance the value is null and not
  \<^verbatim>\<open>startWith\<close>, so that the two fallbacks differ on the same arguments. With
  \<^verbatim>\<open>startWith\<close> null that fails: both fallbacks give null, which is
  \<^verbatim>\<open>startWith\<close>.
\<close>

theorem startWith_null_counterexample:
  "map_sum id (val \<circ> subscribe_d \<circ> fst)
     (docStore sample_sdk \<lparr>ctx_firestore = None\<rparr> (Path ''users/ada'') Null browser) = Inr Null \<and>
   map_sum id (val \<circ> subscribe_d \<circ> fst)
     (docStore sample_sdk \<lparr>ctx_firestore = None\<rparr> (Path ''users/ada'') Null server) = Inr Null"
  by (simp add: docStore_def browser_def server_def writable_def warn_def)

text \<open>
  Claim C9, amended. Without a Firestore instance the store of \<^verbatim>\<open>docStore\<close> has the
  value null whatever \<^verbatim>\<open>startWith\<close> is, and on a server it has the value
  \<^verbatim>\<open>startWith\<close>; the two values differ exactly when \<^verbatim>\<open>startWith\<close> is not
  null.
\<close>

theorem startWith_discarded:
  assumes "window w" and "\<not> window u"
  shows
    "(\<exists>D w' E u'. docStore v \<lparr>ctx_firestore = None\<rparr> r sw w = Inr (D, w') \<and>
        docStore v \<lparr>ctx_firestore = None\<rparr> r sw u = Inr (E, u') \<and>
        val (subscribe_d D) = Null \<and> val (subscribe_d E) = sw \<and>
        (val (subscribe_d D) = val (subscribe_d E)) = (sw = Null)) \<and>
     (\<exists>D w' E u'. docStore_p v None r sw w = Inr (D, w') \<and>
        docStore_p v None r sw u = Inr (E, u') \<and>
        val (subscribe_d D) = Null \<and> val (subscribe_d E) = sw \<and>
        (val (subscribe_d D) = val (subscribe_d E)) = (sw = Null))"
  using assms
  by (auto simp: docStore_eq docStore_p_missing docStore_p_ssr writable_fields)

text \<open>A browser without an instance and a server, with the same default.\<close>

theorem startWith_discarded_witness:
  "window browser \<and> \<not> window server \<and>
   (\<exists>D w' E u'.
      docStore sample_sdk \<lparr>ctx_firestore = None\<rparr> (Path ''users/ada'') (JStr ''wait'') browser
        = Inr (D, w') \<and>
      docStore sample_sdk \<lparr>ctx_firestore = None\<rparr> (Path ''users/ada'') (JStr ''wait'') server
        = Inr (E, u') \<and>
      val (subscribe_d D) = Null \<and> val (subscribe_d E) = JStr ''wait'' \<and>
      val (subscribe_d D) \<noteq> val (subscribe_d E))"
proof -
  have h: "window browser" and k: "\<not> window server"
    by (simp_all add: browser_def server_def)
  show ?thesis
    using h k startWith_discarded[OF h k, of sample_sdk "Path ''users/ada''" "JStr ''wait''"]
    by auto
qed

section \<open>The live branch\<close>

lemma live_writable:
  assumes "wf_world w" and "notifier_target st = Some t"
  shows "live_inv t (fst (writable x st w)) (w\<lparr>stores_made := Suc (stores_made w)\<rparr>)"
proof -
  have "filter (\<lambda>e. snd (snd e) = stores_made w) (listeners w) = []"
    using assms(1) by (auto simp: wf_world_def list_all_iff filter_empty_conv)
  then show ?thesis
    using assms(2) by (simp add: live_inv_def writable_fields own_def)
qed

lemma live_step_subscribers:
  assumes "live_inv t s w" and "step e (s, w) = Inr ((s', w'), cs)"
  shows "subscribers s' =
     (case e of Subscribe \<Rightarrow> subscribers s @ [created s]
      | Unsubscribe k \<Rightarrow> removeAll k (subscribers s)
      | Snapshot h snap \<Rightarrow> subscribers s)"
proof (cases e)
  case Subscribe
  then show ?thesis using live_subscribe[OF assms(1)] assms(2) by auto
next
  case (Unsubscribe k)
  then show ?thesis using live_unsubscriber[OF assms(1), of k] assms(2) by auto
next
  case (Snapshot h snap)
  then show ?thesis using assms(2) deliver_rest(3)[of h snap s w]
    by (cases "deliver h snap s w") auto
qed

lemma live_registers_lazily:
  assumes "live_inv t s0 w0"
  shows "registers_lazily t (s0, w0)"
proof -
  have "\<exists>s w cs s' w' cs'.
        run es (s0, w0) = Inr ((s, w), cs) \<and> step e (s, w) = Inr ((s', w'), cs') \<and>
        (if e = Subscribe \<and> subscribers s = []
         then listeners w' = listeners w @ [(onSnapshot_calls w, t, sid s)] \<and>
              onSnapshot_calls w' = Suc (onSnapshot_calls w)
         else onSnapshot_calls w' = onSnapshot_calls w \<and>
              set (listeners w') \<subseteq> set (listeners w))" for es e
  proof -
    from live_run[OF assms, of es] obtain s w cs where
      r: "run es (s0, w0) = Inr ((s, w), cs)" and i: "live_inv t s w" by blast
    from live_step[OF i, of e] obtain s' cs' where
      st: "step e (s, w) = Inr ((s', next_world t e s w), cs')" by blast
    have "if e = Subscribe \<and> subscribers s = []
         then listeners (next_world t e s w) = listeners w @ [(onSnapshot_calls w, t, sid s)] \<and>
              onSnapshot_calls (next_world t e s w) = Suc (onSnapshot_calls w)
         else onSnapshot_calls (next_world t e s w) = onSnapshot_calls w \<and>
              set (listeners (next_world t e s w)) \<subseteq> set (listeners w)"
      by (cases e)
         (auto simp: next_world_def onSnapshot_def vendor_unsubscribe_def Let_def split: option.splits)
    with r st show ?thesis by blast
  qed
  then show ?thesis by (simp add: registers_lazily_def)
qed

lemma live_tears_down:
  assumes "live_inv t s0 w0"
  shows "tears_down t (s0, w0)"
proof -
  have "\<exists>s w cs s' w' cs'.
        run es (s0, w0) = Inr ((s, w), cs) \<and> step e (s, w) = Inr ((s', w'), cs') \<and>
        (if subscribers s \<noteq> [] \<and> subscribers s' = []
         then \<exists>h. unsubscribe s = Some h \<and> Suc h = onSnapshot_calls w \<and>
                  own s w = [(h, t, sid s)] \<and>
                  cancelled w' = cancelled w @ [h] \<and>
                  listeners w' = filter (\<lambda>x. fst x \<noteq> h) (listeners w) \<and>
                  own s' w' = []
         else cancelled w' = cancelled w)" for es e
  proof -
    from live_run[OF assms, of es] obtain s w cs where
      r: "run es (s0, w0) = Inr ((s, w), cs)" and i: "live_inv t s w" by blast
    from live_step[OF i, of e] obtain s' cs' where
      st: "step e (s, w) = Inr ((s', next_world t e s w), cs')"
      and i': "live_inv t s' (next_world t e s w)" by blast
    note subs = live_step_subscribers[OF i st]
    have "if subscribers s \<noteq> [] \<and> subscribers s' = []
         then \<exists>h. unsubscribe s = Some h \<and> Suc h = onSnapshot_calls w \<and>
                  own s w = [(h, t, sid s)] \<and>
                  cancelled (next_world t e s w) = cancelled w @ [h] \<and>
                  listeners (next_world t e s w) = filter (\<lambda>x. fst x \<noteq> h) (listeners w) \<and>
                  own s' (next_world t e s w) = []
         else cancelled (next_world t e s w) = cancelled w"
    proof (cases "subscribers s \<noteq> [] \<and> subscribers s' = []")
      case True
      then obtain k where e: "e = Unsubscribe k" "removeAll k (subscribers s) = []"
        using subs by (cases e) auto
      from True i obtain h where h: "unsubscribe s = Some h" "Suc h = onSnapshot_calls w"
          "own s w = [(h, t, sid s)]"
        by (auto simp: live_inv_def split: option.splits)
      have n: "next_world t e s w = vendor_unsubscribe h w"
        using e h(1) True by (simp add: next_world_def)
      have "stop s' = None"
        using i' True by (auto simp: live_inv_def split: option.splits)
      then have "own s' (next_world t e s w) = []"
        using i' by (simp add: live_inv_def)
      then show ?thesis
        using True h n by (simp add: vendor_unsubscribe_def)
    next
      case False
      have "cancelled (next_world t e s w) = cancelled w"
      proof (cases e)
        case Subscribe
        then show ?thesis by (simp add: next_world_def onSnapshot_def Let_def)
      next
        case (Unsubscribe k)
        then show ?thesis using False subs by (auto simp: next_world_def)
      next
        case (Snapshot h snap)
        then show ?thesis by (simp add: next_world_def)
      qed
      with False show ?thesis by simp
    qed
    with r st show ?thesis by blast
  qed
  then show ?thesis by (simp add: tears_down_def)
qed

lemma live_holds:
  assumes "live_inv t s w" and "holds w h s"
  shows "find (\<lambda>e. fst e = h) (listeners w) = Some (h, t, sid s) \<and>
         stop s = Some StopUnsubscribe \<and> unsubscribe s = Some h \<and> subscribers s \<noteq> []"
proof -
  from assms(2) obtain e where e: "find (\<lambda>e. fst e = h) (listeners w) = Some e"
      "snd (snd e) = sid s"
    by (auto simp: holds_def split: option.splits)
  then have m: "e \<in> set (own s w)" "fst e = h"
    by (auto simp: own_def find_Some_iff)
  then have "stop s \<noteq> None"
    using assms(1) by (cases "stop s") (auto simp: live_inv_def)
  then obtain h' where h': "stop s = Some StopUnsubscribe" "unsubscribe s = Some h'"
      "own s w = [(h', t, sid s)]" "subscribers s \<noteq> []"
    using assms(1) by (auto simp: live_inv_def split: option.splits)
  with m have "e = (h, t, sid s)" "h' = h" by auto
  with e h' show ?thesis by simp
qed

lemma live_deliver_doc:
  assumes "live_inv (DocTarget d) s w" and "holds w h s"
  shows "deliver h (DocSnap x) s w = set_value (doc_callback_value x) s"
proof -
  have "start s = DocNotifier d"
    using assms(1) by (cases "start s") (simp_all add: live_inv_def)
  then show ?thesis
    using live_holds[OF assms] by (simp add: deliver_def)
qed

lemma live_deliver_col:
  assumes "live_inv (ColTarget c) s w" and "holds w h s"
  shows "deliver h (QuerySnap x) s w = set_value (col_callback_value x) s"
proof -
  have "start s = ColNotifier c"
    using assms(1) by (cases "start s") (simp_all add: live_inv_def)
  then show ?thesis
    using live_holds[OF assms] by (simp add: deliver_def)
qed

lemma map_of_fold_update:
  "map_of (fold (\<lambda>(k, v). AList.update k v) d base) = map_of base ++ map_of (rev d)"
proof (induction d arbitrary: base)
  case Nil
  then show ?case by simp
next
  case (Cons a d)
  obtain k v where a: "a = (k, v)" by (cases a)
  show ?case
    by (simp add: a Cons.IH update_conv' map_add_upd_left fun_eq_iff map_add_def split: option.splits)
qed

lemma map_of_rev_distinct: "distinct (map fst xs) \<Longrightarrow> map_of (rev xs) = map_of xs"
  by (induction xs)
     (auto simp: fun_eq_iff map_add_def image_iff split: option.splits dest!: map_of_SomeD)

lemma map_of_spread:
  assumes "distinct (map fst d)"
  shows "map_of (spread base d) = map_of base ++ map_of d"
  using assms by (simp add: spread_def map_of_fold_update map_of_rev_distinct)

lemma docStore_p_live_inv:
  assumes "window w" and "wf_world w" and "docStore_p v (Some fs) r sw w = Inr (D, w1)"
  shows "\<exists>d. resolve_docRef v fs r = Inr d \<and> ref_d D = Some d \<and> val (subscribe_d D) = sw \<and>
             untouched w w1 \<and> live_inv (DocTarget d) (subscribe_d D) w1"
proof (cases "resolve_docRef v fs r")
  case (Inl e)
  then show ?thesis using assms by (simp add: docStore_p_live)
next
  case (Inr d)
  then have "D = \<lparr>subscribe_d = fst (writable sw (DocNotifier d) w), ref_d = Some d, id_d = ref_id d\<rparr>"
      "w1 = w\<lparr>stores_made := Suc (stores_made w)\<rparr>"
    using assms by (simp_all add: docStore_p_live)
  then show ?thesis
    using Inr live_writable[OF assms(2), of "DocNotifier d" "DocTarget d" sw]
    by (simp add: untouched_def writable_fields)
qed

lemma collectionStore_p_live_inv:
  assumes "window w" and "wf_world w" and "collectionStore_p v (Some fs) r sw w = Inr (C, w1)"
  shows "\<exists>c. resolve_colRef v fs r = Inr c \<and> ref_c C = Some c \<and> val (subscribe_c C) = sw \<and>
             untouched w w1 \<and> live_inv (ColTarget c) (subscribe_c C) w1"
proof (cases "resolve_colRef v fs r")
  case (Inl e)
  then show ?thesis using assms by (simp add: collectionStore_p_live)
next
  case (Inr c)
  then have "C = \<lparr>subscribe_c = fst (writable sw (ColNotifier c) w), ref_c = Some c\<rparr>"
      "w1 = w\<lparr>stores_made := Suc (stores_made w)\<rparr>"
    using assms by (simp_all add: collectionStore_p_live)
  then show ?thesis
    using Inr live_writable[OF assms(2), of "ColNotifier c" "ColTarget c" sw]
    by (simp add: untouched_def writable_fields)
qed

lemma docStore_live_inv:
  assumes "window w" and "wf_world w"
    and "docStore v \<lparr>ctx_firestore = Some fs\<rparr> r sw w = Inr (D, w1) \<or>
         docStore_p v (Some fs) r sw w = Inr (D, w1)"
  shows "\<exists>d. ref_d D = Some d \<and> val (subscribe_d D) = sw \<and>
             untouched w w1 \<and> live_inv (DocTarget d) (subscribe_d D) w1"
  using docStore_p_live_inv[OF assms(1,2), of v fs r sw D w1] assms(3)
  by (auto simp: docStore_eq)

lemma collectionStore_live_inv:
  assumes "window w" and "wf_world w"
    and "collectionStore v \<lparr>ctx_firestore = Some fs\<rparr> r sw w = Inr (C, w1) \<or>
         collectionStore_p v (Some fs) r sw w = Inr (C, w1)"
  shows "\<exists>c. ref_c C = Some c \<and> untouched w w1 \<and> live_inv (ColTarget c) (subscribe_c C) w1"
  using collectionStore_p_live_inv[OF assms(1,2), of v fs r sw C w1]
    collectionStore_p_live_inv[OF assms(1,2), of v fs r "if sw = Undefined then JArr [] else sw" C w1]
    assms(3)
  by (auto simp: collectionStore_eq)

text \<open>
  Claim C6. In the live branch, constructing a store with \<^verbatim>\<open>docStore\<close> or
  \<^verbatim>\<open>collectionStore\<close> leaves the Firestore client untouched (no
  \<^verbatim>\<open>onSnapshot\<close> call), and afterwards a listener on the store's reference is
  registered exactly when a subscriber arrives at a store that has none.
\<close>

theorem lazy_activation:
  assumes "window w" and "wf_world w"
  shows
    "(\<forall>D w1. docStore v \<lparr>ctx_firestore = Some fs\<rparr> r sw w = Inr (D, w1) \<or>
              docStore_p v (Some fs) r sw w = Inr (D, w1) \<longrightarrow>
        untouched w w1 \<and>
        (\<exists>d. ref_d D = Some d \<and> registers_lazily (DocTarget d) (subscribe_d D, w1))) \<and>
     (\<forall>C w1. collectionStore v \<lparr>ctx_firestore = Some fs\<rparr> q sw w = Inr (C, w1) \<or>
              collectionStore_p v (Some fs) q sw w = Inr (C, w1) \<longrightarrow>
        untouched w w1 \<and>
        (\<exists>c. ref_c C = Some c \<and> registers_lazily (ColTarget c) (subscribe_c C, w1)))"
proof (intro conjI allI impI)
  fix D w1
  assume "docStore v \<lparr>ctx_firestore = Some fs\<rparr> r sw w = Inr (D, w1) \<or>
          docStore_p v (Some fs) r sw w = Inr (D, w1)"
  from docStore_live_inv[OF assms this]
  show "untouched w w1"
    and "\<exists>d. ref_d D = Some d \<and> registers_lazily (DocTarget d) (subscribe_d D, w1)"
    by (auto intro: live_registers_lazily)
next
  fix C w1
  assume "collectionStore v \<lparr>ctx_firestore = Some fs\<rparr> q sw w = Inr (C, w1) \<or>
          collectionStore_p v (Some fs) q sw w = Inr (C, w1)"
  from collectionStore_live_inv[OF assms this]
  show "untouched w w1"
    and "\<exists>c. ref_c C = Some c \<and> registers_lazily (ColTarget c) (subscribe_c C, w1)"
    by (auto intro: live_registers_lazily)
qed

lemma wf_browser: "wf_world browser"
  by (simp add: wf_world_def browser_def)

lemma docStore_ada:
  "docStore sample_sdk \<lparr>ctx_firestore = Some app\<rparr> (Path ''users/ada'') x browser =
     Inr (\<lparr>subscribe_d = \<lparr>sid = 0, val = x, start = DocNotifier ada, subscribers = [],
                           created = 0, stop = None, unsubscribe = None\<rparr>,
           ref_d = Some ada, id_d = ''users/ada''\<rparr>,
          browser\<lparr>stores_made := 1\<rparr>)"
  by (simp add: docStore_def resolve_docRef_def sample_sdk_def browser_def writable_def ada_def)

lemma collectionStore_users:
  "collectionStore_p sample_sdk (Some app) (Path ''users'') x browser =
     Inr (\<lparr>subscribe_c = \<lparr>sid = 0, val = x, start = ColNotifier (CollectionReference app ''users''),
                           subscribers = [], created = 0, stop = None, unsubscribe = None\<rparr>,
           ref_c = Some (CollectionReference app ''users'')\<rparr>,
          browser\<lparr>stores_made := 1\<rparr>)"
  by (simp add: collectionStore_p_def resolve_colRef_def sample_sdk_def browser_def writable_def)

text \<open>The document store of the browser: nothing registered before the first subscriber, one listener for two subscribers.\<close>

theorem lazy_activation_witness:
  "window browser \<and> wf_world browser \<and>
   untouched browser (browser\<lparr>stores_made := 1\<rparr>) \<and>
   registers_lazily (DocTarget ada)
     (\<lparr>sid = 0, val = Undefined, start = DocNotifier ada, subscribers = [], created = 0,
       stop = None, unsubscribe = None\<rparr>, browser\<lparr>stores_made := 1\<rparr>) \<and>
   final_world (run_d [] (docStore sample_sdk \<lparr>ctx_firestore = Some app\<rparr> (Path ''users/ada'')
       Undefined browser)) = Inr (browser\<lparr>stores_made := 1\<rparr>) \<and>
   final_world (run_d [Subscribe, Subscribe] (docStore sample_sdk \<lparr>ctx_firestore = Some app\<rparr>
       (Path ''users/ada'') Undefined browser))
     = Inr (browser\<lparr>stores_made := 1, listeners := [(0, DocTarget ada, 0)], onSnapshot_calls := 1\<rparr>)"
proof -
  have h: "window browser" by (simp add: browser_def)
  have e: "final_world (run_d [Subscribe, Subscribe] (docStore sample_sdk \<lparr>ctx_firestore = Some app\<rparr>
       (Path ''users/ada'') Undefined browser))
     = Inr (browser\<lparr>stores_made := 1, listeners := [(0, DocTarget ada, 0)], onSnapshot_calls := 1\<rparr>)"
    unfolding docStore_ada run_d_def
    by (simp add: final_world_def subscribe_def run_start_def onSnapshot_def browser_def Let_def)
  note t = lazy_activation[OF h wf_browser, THEN conjunct1, rule_format, OF disjI1,
      OF docStore_ada]
  show ?thesis
    using h wf_browser e t[of Undefined]
    by (simp add: docStore_ada run_d_def final_world_def)
qed

text \<open>
  Claim C7. In the live branch, whenever the subscribers of the store go back to none, the
  unsubscribe function returned by the \<^verbatim>\<open>onSnapshot\<close> call of that activation is
  invoked, and the client holds no listener for the store any more.
\<close>

theorem unsubscribe_on_teardown:
  assumes "window w" and "wf_world w"
  shows
    "(\<forall>D w1. docStore v \<lparr>ctx_firestore = Some fs\<rparr> r sw w = Inr (D, w1) \<or>
              docStore_p v (Some fs) r sw w = Inr (D, w1) \<longrightarrow>
        (\<exists>d. ref_d D = Some d \<and> tears_down (DocTarget d) (subscribe_d D, w1))) \<and>
     (\<forall>C w1. collectionStore v \<lparr>ctx_firestore = Some fs\<rparr> q sw w = Inr (C, w1) \<or>
              collectionStore_p v (Some fs) q sw w = Inr (C, w1) \<longrightarrow>
        (\<exists>c. ref_c C = Some c \<and> tears_down (ColTarget c) (subscribe_c C, w1)))"
proof (intro conjI allI impI)
  fix D w1
  assume "docStore v \<lparr>ctx_firestore = Some fs\<rparr> r sw w = Inr (D, w1) \<or>
          docStore_p v (Some fs) r sw w = Inr (D, w1)"
  from docStore_live_inv[OF assms this]
  show "\<exists>d. ref_d D = Some d \<and> tears_down (DocTarget d) (subscribe_d D, w1)"
    by (auto intro: live_tears_down)
next
  fix C w1
  assume "collectionStore v \<lparr>ctx_firestore = Some fs\<rparr> q sw w = Inr (C, w1) \<or>
          collectionStore_p v (Some fs) q sw w = Inr (C, w1)"
  from collectionStore_live_inv[OF assms this]
  show "\<exists>c. ref_c C = Some c \<and> tears_down (ColTarget c) (subscribe_c C, w1)"
    by (auto intro: live_tears_down)
qed

text \<open>Two subscribers: the listener stays when the first leaves and is cancelled when the second does.\<close>

theorem unsubscribe_on_teardown_witness:
  "window browser \<and> wf_world browser \<and>
   tears_down (DocTarget ada)
     (\<lparr>sid = 0, val = Undefined, start = DocNotifier ada, subscribers = [], created = 0,
       stop = None, unsubscribe = None\<rparr>, browser\<lparr>stores_made := 1\<rparr>) \<and>
   final_world (run_d [Subscribe, Subscribe, Unsubscribe 0] (docStore sample_sdk
       \<lparr>ctx_firestore = Some app\<rparr> (Path ''users/ada'') Undefined browser))
     = Inr (browser\<lparr>stores_made := 1, listeners := [(0, DocTarget ada, 0)], onSnapshot_calls := 1\<rparr>) \<and>
   final_world (run_d [Subscribe, Subscribe, Unsubscribe 0, Unsubscribe 1] (docStore sample_sdk
       \<lparr>ctx_firestore = Some app\<rparr> (Path ''users/ada'') Undefined browser))
     = Inr (browser\<lparr>stores_made := 1, onSnapshot_calls := 1, cancelled := [0]\<rparr>)"
proof -
  have h: "window browser" by (simp add: browser_def)
  have e: "final_world (run_d [Subscribe, Subscribe, Unsubscribe 0] (docStore sample_sdk
       \<lparr>ctx_firestore = Some app\<rparr> (Path ''users/ada'') Undefined browser))
     = Inr (browser\<lparr>stores_made := 1, listeners := [(0, DocTarget ada, 0)], onSnapshot_calls := 1\<rparr>)"
    unfolding docStore_ada run_d_def
    by (simp add: final_world_def subscribe_def run_start_def unsubscriber_def
        onSnapshot_def browser_def Let_def)
  have f: "final_world (run_d [Subscribe, Subscribe, Unsubscribe 0, Unsubscribe 1] (docStore sample_sdk
       \<lparr>ctx_firestore = Some app\<rparr> (Path ''users/ada'') Undefined browser))
     = Inr (browser\<lparr>stores_made := 1, onSnapshot_calls := 1, cancelled := [0]\<rparr>)"
    unfolding docStore_ada run_d_def
    by (simp add: final_world_def subscribe_def run_start_def unsubscriber_def run_stop_def
        vendor_unsubscribe_def onSnapshot_def browser_def Let_def)
  note t = unsubscribe_on_teardown[OF h wf_browser, THEN conjunct1, rule_format, OF disjI1,
      OF docStore_ada]
  show ?thesis
    using h wf_browser e f t[of Undefined] by simp
qed

lemma reach_live:
  assumes "live_inv t s0 w0" and "run es (s0, w0) = Inr ((s, w), cs)"
  shows "live_inv t s w"
  using live_run[OF assms(1), of es] assms(2) by auto

lemma set_value_object:
  "is_object x \<Longrightarrow> stop s \<noteq> None \<Longrightarrow>
     set_value x s = (s\<lparr>val := x\<rparr>, map (\<lambda>k. (k, x)) (subscribers s))"
  by (cases x) (auto simp: set_value_def safe_not_equal_def)

lemma set_value_Null:
  "stop s \<noteq> None \<Longrightarrow>
     set_value Null s =
       (if val s = Null then (s, []) else (s\<lparr>val := Null\<rparr>, map (\<lambda>k. (k, Null)) (subscribers s)))"
  by (cases "val s") (auto simp: set_value_def safe_not_equal_def)

text \<open>
  Claim C4. For every snapshot the client delivers to the listener of a store, at any moment
  of its life: \<^verbatim>\<open>docStore\<close> sets the value to \<^verbatim>\<open>snapshot.data()\<close>, with null for
  undefined; \<^verbatim>\<open>collectionStore\<close> sets it to the array, in the order of
  \<^verbatim>\<open>snapshot.docs\<close>, of the records \<^verbatim>\<open>{ id: s.id, ref: s.ref, ...s.data() }\<close>.
  The properties of such a literal are those written first, overridden by those of the
  spread object.
\<close>

theorem snapshot_mapping:
  assumes "window w" and "wf_world w"
  shows
    "(\<forall>D w1 es s w' cs h x.
        (docStore v \<lparr>ctx_firestore = Some fs\<rparr> r sw w = Inr (D, w1) \<or>
         docStore_p v (Some fs) r sw w = Inr (D, w1)) \<and>
        run es (subscribe_d D, w1) = Inr ((s, w'), cs) \<and> holds w' h s \<longrightarrow>
        val (fst (deliver h (DocSnap x) s w')) = (case data x of None \<Rightarrow> Null | Some d \<Rightarrow> JObj d)) \<and>
     (\<forall>C w1 es s w' cs h x.
        (collectionStore v \<lparr>ctx_firestore = Some fs\<rparr> q sw w = Inr (C, w1) \<or>
         collectionStore_p v (Some fs) q sw w = Inr (C, w1)) \<and>
        run es (subscribe_c C, w1) = Inr ((s, w'), cs) \<and> holds w' h s \<longrightarrow>
        val (fst (deliver h (QuerySnap x) s w')) =
          JArr (map (\<lambda>d. JObj (spread [(''id'', JStr (qid d)), (''ref'', JRef (qref d))] (qdata d)))
                 (docs x))) \<and>
     (\<forall>base d. distinct (map fst d) \<longrightarrow> map_of (spread base d) = map_of base ++ map_of d)"
proof (intro conjI allI impI)
  fix D w1 es s w' cs h x
  assume a: "(docStore v \<lparr>ctx_firestore = Some fs\<rparr> r sw w = Inr (D, w1) \<or>
         docStore_p v (Some fs) r sw w = Inr (D, w1)) \<and>
        run es (subscribe_d D, w1) = Inr ((s, w'), cs) \<and> holds w' h s"
  from docStore_live_inv[OF assms, of v fs r sw D w1] a obtain d where
    "live_inv (DocTarget d) (subscribe_d D) w1" by blast
  with a have "live_inv (DocTarget d) s w'" by (blast intro: reach_live)
  with a have "deliver h (DocSnap x) s w' = set_value (doc_callback_value x) s"
    by (simp add: live_deliver_doc)
  then show "val (fst (deliver h (DocSnap x) s w')) = (case data x of None \<Rightarrow> Null | Some d \<Rightarrow> JObj d)"
    by (simp add: set_value_val doc_callback_value_def)
next
  fix C w1 es s w' cs h x
  assume a: "(collectionStore v \<lparr>ctx_firestore = Some fs\<rparr> q sw w = Inr (C, w1) \<or>
         collectionStore_p v (Some fs) q sw w = Inr (C, w1)) \<and>
        run es (subscribe_c C, w1) = Inr ((s, w'), cs) \<and> holds w' h s"
  from collectionStore_live_inv[OF assms, of v fs q sw C w1] a obtain c where
    "live_inv (ColTarget c) (subscribe_c C) w1" by blast
  with a have "live_inv (ColTarget c) s w'" by (blast intro: reach_live)
  with a have "deliver h (QuerySnap x) s w' = set_value (col_callback_value x) s"
    by (simp add: live_deliver_col)
  then show "val (fst (deliver h (QuerySnap x) s w')) =
          JArr (map (\<lambda>d. JObj (spread [(''id'', JStr (qid d)), (''ref'', JRef (qref d))] (qdata d)))
                 (docs x))"
    by (simp add: set_value_val col_callback_value_def col_record_def)
next
  fix base d
  assume "distinct (map fst (d :: DocumentData))"
  then show "map_of (spread base d) = map_of base ++ map_of d"
    by (rule map_of_spread)
qed

lemma docStore_ada_store:
  "docStore sample_sdk \<lparr>ctx_firestore = Some app\<rparr> (Path ''users/ada'') x browser =
     Inr (\<lparr>subscribe_d = ada_store x, ref_d = Some ada, id_d = ''users/ada''\<rparr>,
          browser\<lparr>stores_made := 1\<rparr>)"
  by (simp add: docStore_ada ada_store_def)

lemma collectionStore_users_store:
  "collectionStore_p sample_sdk (Some app) (Path ''users'') x browser =
     Inr (\<lparr>subscribe_c = users_store x, ref_c = Some users\<rparr>, browser\<lparr>stores_made := 1\<rparr>)"
  by (simp add: collectionStore_users users_store_def users_def)

lemma run_ada_Subscribe:
  "run [Subscribe] (ada_store x, browser\<lparr>stores_made := 1\<rparr>) =
     Inr ((ada_active x, listening (DocTarget ada)), [(0, x)])"
  by (simp add: ada_store_def ada_active_def listening_def browser_def subscribe_def
      run_start_def onSnapshot_def Let_def)

lemma run_users_Subscribe:
  "run [Subscribe] (users_store x, browser\<lparr>stores_made := 1\<rparr>) =
     Inr ((users_active x, listening (ColTarget users)), [(0, x)])"
  by (simp add: users_store_def users_active_def listening_def browser_def subscribe_def
      run_start_def onSnapshot_def Let_def)

lemma holds_ada: "holds (listening t) 0 (ada_active x)"
  by (simp add: holds_def listening_def ada_active_def)

lemma holds_users: "holds (listening t) 0 (users_active x)"
  by (simp add: holds_def listening_def users_active_def)

text \<open>A document that exists and one that does not, delivered to the document store with one subscriber.\<close>

theorem snapshot_mapping_witness:
  "window browser \<and> wf_world browser \<and>
   docStore sample_sdk \<lparr>ctx_firestore = Some app\<rparr> (Path ''users/ada'') Undefined browser =
     Inr (\<lparr>subscribe_d = ada_store Undefined, ref_d = Some ada, id_d = ''users/ada''\<rparr>,
          browser\<lparr>stores_made := 1\<rparr>) \<and>
   run [Subscribe] (ada_store Undefined, browser\<lparr>stores_made := 1\<rparr>) =
     Inr ((ada_active Undefined, listening (DocTarget ada)), [(0, Undefined)]) \<and>
   holds (listening (DocTarget ada)) 0 (ada_active Undefined) \<and>
   val (fst (deliver 0 (DocSnap (DocumentSnapshot (Some [(''age'', JNum 36)])))
              (ada_active Undefined) (listening (DocTarget ada)))) = JObj [(''age'', JNum 36)] \<and>
   val (fst (deliver 0 (DocSnap (DocumentSnapshot None))
              (ada_active Undefined) (listening (DocTarget ada)))) = Null"
proof -
  have h: "window browser" by (simp add: browser_def)
  have r: "run [Subscribe] (subscribe_d \<lparr>subscribe_d = ada_store x, ref_d = Some ada,
        id_d = ''users/ada''\<rparr>, browser\<lparr>stores_made := 1\<rparr>) =
     Inr ((ada_active x, listening (DocTarget ada)), [(0, x)])" for x
    using run_ada_Subscribe[of x] by simp
  note p = conjI[OF disjI1[OF docStore_ada_store[of Undefined]]
      conjI[OF r[of Undefined] holds_ada[of "DocTarget ada" Undefined]]]
  note t = snapshot_mapping[OF h wf_browser, THEN conjunct1, rule_format, OF p]
  show ?thesis
    using h wf_browser docStore_ada_store run_ada_Subscribe holds_ada
      t[of "DocumentSnapshot (Some [(''age'', JNum 36)])"]
      t[of "DocumentSnapshot None"]
    by simp
qed

text \<open>
  Claim C5 says that what a store passes to its subscribers is exactly what the SDK
  delivered. It is not: for a document that does not exist \<^verbatim>\<open>snapshot.data()\<close> is
  undefined and the subscriber is called with null; and for a collection the subscriber
  receives each document's data with \<^verbatim>\<open>id\<close> and \<^verbatim>\<open>ref\<close> added.
\<close>

theorem forwarding_counterexample:
  "values_passed (run_d [Subscribe, Snapshot 0 (DocSnap (DocumentSnapshot None))]
      (docStore sample_sdk \<lparr>ctx_firestore = Some app\<rparr> (Path ''users/ada'') (JStr ''wait'') browser))
     = Inr [JStr ''wait'', Null] \<and>
   data_value (DocumentSnapshot None) = Undefined \<and>
   values_passed (run_c [Subscribe,
        Snapshot 0 (QuerySnap (QuerySnapshot [QueryDocumentSnapshot ''ada'' ada [(''age'', JNum 36)]]))]
      (collectionStore_p sample_sdk (Some app) (Path ''users'') Undefined browser))
     = Inr [Undefined, JArr [JObj [(''id'', JStr ''ada''), (''ref'', JRef ada), (''age'', JNum 36)]]] \<and>
   JArr [JObj [(''id'', JStr ''ada''), (''ref'', JRef ada), (''age'', JNum 36)]]
     \<noteq> JArr [JObj [(''age'', JNum 36)]]"
  unfolding docStore_ada_store collectionStore_users_store run_d_def run_c_def
  by (simp add: values_passed_def data_value_def ada_store_def users_store_def browser_def
      subscribe_def run_start_def onSnapshot_def deliver_def set_value_def safe_not_equal_def
      doc_callback_value_def col_callback_value_def col_record_def spread_def Let_def)

text \<open>
  Claim C5, amended. For a snapshot delivered to the listener of a store:
  \<^verbatim>\<open>docStore\<close> passes \<^verbatim>\<open>snapshot.data()\<close> unchanged to every subscriber when the
  document has data; when \<^verbatim>\<open>snapshot.data()\<close> is undefined it passes null to every
  subscriber, except that it passes nothing when the value of the store is null already;
  \<^verbatim>\<open>collectionStore\<close> passes to every subscriber the array, in snapshot order, of one
  record per document, whose properties are \<^verbatim>\<open>id\<close> and \<^verbatim>\<open>ref\<close> overridden by the
  properties of the document's data.
\<close>

theorem snapshot_forwarding:
  assumes "window w" and "wf_world w"
  shows
    "(\<forall>D w1 es s w' cs h x.
        (docStore v \<lparr>ctx_firestore = Some fs\<rparr> r sw w = Inr (D, w1) \<or>
         docStore_p v (Some fs) r sw w = Inr (D, w1)) \<and>
        run es (subscribe_d D, w1) = Inr ((s, w'), cs) \<and> holds w' h s \<longrightarrow>
        deliver h (DocSnap x) s w' =
          (case data x of
             Some d \<Rightarrow> (s\<lparr>val := JObj d\<rparr>, map (\<lambda>k. (k, JObj d)) (subscribers s))
           | None \<Rightarrow>
               if val s = Null then (s, [])
               else (s\<lparr>val := Null\<rparr>, map (\<lambda>k. (k, Null)) (subscribers s)))) \<and>
     (\<forall>C w1 es s w' cs h x.
        (collectionStore v \<lparr>ctx_firestore = Some fs\<rparr> q sw w = Inr (C, w1) \<or>
         collectionStore_p v (Some fs) q sw w = Inr (C, w1)) \<and>
        run es (subscribe_c C, w1) = Inr ((s, w'), cs) \<and> holds w' h s \<longrightarrow>
        deliver h (QuerySnap x) s w' =
          (s\<lparr>val := JArr (map col_record (docs x))\<rparr>,
           map (\<lambda>k. (k, JArr (map col_record (docs x)))) (subscribers s))) \<and>
     (\<forall>d. distinct (map fst (qdata d)) \<longrightarrow>
        (\<exists>fields. col_record d = JObj fields \<and>
           map_of fields = [''id'' \<mapsto> JStr (qid d), ''ref'' \<mapsto> JRef (qref d)] ++ map_of (qdata d)))"
proof (intro conjI allI impI)
  fix D w1 es s w' cs h x
  assume a: "(docStore v \<lparr>ctx_firestore = Some fs\<rparr> r sw w = Inr (D, w1) \<or>
         docStore_p v (Some fs) r sw w = Inr (D, w1)) \<and>
        run es (subscribe_d D, w1) = Inr ((s, w'), cs) \<and> holds w' h s"
  from docStore_live_inv[OF assms, of v fs r sw D w1] a obtain d where
    "live_inv (DocTarget d) (subscribe_d D) w1" by blast
  with a have i: "live_inv (DocTarget d) s w'" by (blast intro: reach_live)
  with a have e: "deliver h (DocSnap x) s w' = set_value (doc_callback_value x) s"
    by (simp add: live_deliver_doc)
  have st: "stop s \<noteq> None"
    using live_holds[OF i, of h] a by simp
  show "deliver h (DocSnap x) s w' =
          (case data x of
             Some d \<Rightarrow> (s\<lparr>val := JObj d\<rparr>, map (\<lambda>k. (k, JObj d)) (subscribers s))
           | None \<Rightarrow>
               if val s = Null then (s, [])
               else (s\<lparr>val := Null\<rparr>, map (\<lambda>k. (k, Null)) (subscribers s)))"
  proof (cases "data x")
    case None
    then show ?thesis using e st by (simp add: doc_callback_value_def set_value_Null)
  next
    case (Some d)
    then show ?thesis using e st by (simp add: doc_callback_value_def set_value_object)
  qed
next
  fix C w1 es s w' cs h x
  assume a: "(collectionStore v \<lparr>ctx_firestore = Some fs\<rparr> q sw w = Inr (C, w1) \<or>
         collectionStore_p v (Some fs) q sw w = Inr (C, w1)) \<and>
        run es (subscribe_c C, w1) = Inr ((s, w'), cs) \<and> holds w' h s"
  from collectionStore_live_inv[OF assms, of v fs q sw C w1] a obtain c where
    "live_inv (ColTarget c) (subscribe_c C) w1" by blast
  with a have i: "live_inv (ColTarget c) s w'" by (blast intro: reach_live)
  with a have e: "deliver h (QuerySnap x) s w' = set_value (col_callback_value x) s"
    by (simp add: live_deliver_col)
  have st: "stop s \<noteq> None"
    using live_holds[OF i, of h] a by simp
  show "deliver h (QuerySnap x) s w' =
          (s\<lparr>val := JArr (map col_record (docs x))\<rparr>,
           map (\<lambda>k. (k, JArr (map col_record (docs x)))) (subscribers s))"
    using e st by (simp add: col_callback_value_def set_value_object)
next
  fix d
  assume "distinct (map fst (qdata d))"
  then have "map_of (spread [(''id'', JStr (qid d)), (''ref'', JRef (qref d))] (qdata d)) =
      [''id'' \<mapsto> JStr (qid d), ''ref'' \<mapsto> JRef (qref d)] ++ map_of (qdata d)"
    by (simp add: map_of_spread fun_eq_iff map_add_def split: option.splits)
  then show "\<exists>fields. col_record d = JObj fields \<and>
           map_of fields = [''id'' \<mapsto> JStr (qid d), ''ref'' \<mapsto> JRef (qref d)] ++ map_of (qdata d)"
    by (simp add: col_record_def)
qed

text \<open>
  One document delivered to the collection store with one subscriber; and a document that
  does not exist delivered to the document store with one subscriber, first while the store
  holds undefined (null is passed on), then while it holds null (nothing is passed on).
\<close>

theorem snapshot_forwarding_witness:
  "window browser \<and> wf_world browser \<and>
   collectionStore_p sample_sdk (Some app) (Path ''users'') Undefined browser =
     Inr (\<lparr>subscribe_c = users_store Undefined, ref_c = Some users\<rparr>, browser\<lparr>stores_made := 1\<rparr>) \<and>
   run [Subscribe] (users_store Undefined, browser\<lparr>stores_made := 1\<rparr>) =
     Inr ((users_active Undefined, listening (ColTarget users)), [(0, Undefined)]) \<and>
   holds (listening (ColTarget users)) 0 (users_active Undefined) \<and>
   deliver 0 (QuerySnap (QuerySnapshot [QueryDocumentSnapshot ''ada'' ada [(''age'', JNum 36)]]))
       (users_active Undefined) (listening (ColTarget users)) =
     (users_active (JArr [JObj [(''id'', JStr ''ada''), (''ref'', JRef ada), (''age'', JNum 36)]]),
      [(0, JArr [JObj [(''id'', JStr ''ada''), (''ref'', JRef ada), (''age'', JNum 36)]])]) \<and>
   docStore sample_sdk \<lparr>ctx_firestore = Some app\<rparr> (Path ''users/ada'') Null browser =
     Inr (\<lparr>subscribe_d = ada_store Null, ref_d = Some ada, id_d = ''users/ada''\<rparr>,
          browser\<lparr>stores_made := 1\<rparr>) \<and>
   run [Subscribe] (ada_store Null, browser\<lparr>stores_made := 1\<rparr>) =
     Inr ((ada_active Null, listening (DocTarget ada)), [(0, Null)]) \<and>
   holds (listening (DocTarget ada)) 0 (ada_active Null) \<and>
   deliver 0 (DocSnap (DocumentSnapshot None)) (ada_active Undefined) (listening (DocTarget ada)) =
     (ada_active Null, [(0, Null)]) \<and>
   deliver 0 (DocSnap (DocumentSnapshot None)) (ada_active Null) (listening (DocTarget ada)) =
     (ada_active Null, []) \<and>
   deliver 0 (DocSnap (DocumentSnapshot (Some [(''age'', JNum 36)]))) (ada_active Null)
       (listening (DocTarget ada)) =
     (ada_active (JObj [(''age'', JNum 36)]), [(0, JObj [(''age'', JNum 36)])])"
proof -
  have h: "window browser" by (simp add: browser_def)
  have r: "run [Subscribe] (subscribe_c \<lparr>subscribe_c = users_store x, ref_c = Some users\<rparr>,
        browser\<lparr>stores_made := 1\<rparr>) =
     Inr ((users_active x, listening (ColTarget users)), [(0, x)])" for x
    using run_users_Subscribe[of x] by simp
  have rd: "run [Subscribe] (subscribe_d \<lparr>subscribe_d = ada_store x, ref_d = Some ada,
        id_d = ''users/ada''\<rparr>, browser\<lparr>stores_made := 1\<rparr>) =
     Inr ((ada_active x, listening (DocTarget ada)), [(0, x)])" for x
    using run_ada_Subscribe[of x] by simp
  note p = conjI[OF disjI2[OF collectionStore_users_store[of Undefined]]
      conjI[OF r[of Undefined] holds_users[of "ColTarget users" Undefined]]]
  note t = snapshot_forwarding[OF h wf_browser, THEN conjunct2, THEN conjunct1, rule_format, OF p]
  note pu = conjI[OF disjI1[OF docStore_ada_store[of Undefined]]
      conjI[OF rd[of Undefined] holds_ada[of "DocTarget ada" Undefined]]]
  note pn = conjI[OF disjI1[OF docStore_ada_store[of Null]]
      conjI[OF rd[of Null] holds_ada[of "DocTarget ada" Null]]]
  note tu = snapshot_forwarding[OF h wf_browser, THEN conjunct1, rule_format, OF pu]
  note tn = snapshot_forwarding[OF h wf_browser, THEN conjunct1, rule_format, OF pn]
  show ?thesis
    using h wf_browser collectionStore_users_store run_users_Subscribe holds_users
      docStore_ada_store run_ada_Subscribe holds_ada
      t[of "QuerySnapshot [QueryDocumentSnapshot ''ada'' ada [(''age'', JNum 36)]]"]
      tu[of "DocumentSnapshot None"] tn[of "DocumentSnapshot None"]
      tn[of "DocumentSnapshot (Some [(''age'', JNum 36)])"]
    by (simp add: users_active_def ada_active_def col_record_def spread_def)
qed

lemma fresh_read:
  assumes "stop s = None" and "subscribers s = []" and "unsubscribe s = None"
  shows "\<exists>k s1 w1 s2. subscribe s w = (k, s1, w1, [(k, val s)]) \<and>
           unsubscriber k s1 w1 =
             Inr (s2, case notifier_target (start s) of
                        None \<Rightarrow> w
                      | Some t \<Rightarrow> vendor_unsubscribe (onSnapshot_calls w)
                                    (snd (onSnapshot t (sid s) w)))"
  using assms
  by (cases "start s")
     (simp_all add: subscribe_def run_start_def unsubscriber_def run_stop_def
        onSnapshot_def Let_def)

lemma read_fresh:
  "(case subscribe (fst (writable x st u)) u' of
      (k, s, w2, cs) \<Rightarrow>
        (case unsubscriber k s w2 of
           Inl e \<Rightarrow> Inl e
         | Inr (s', w3) \<Rightarrow> Inr (captured cs, w3))) =
   Inr (x, case notifier_target st of
             None \<Rightarrow> u'
           | Some t \<Rightarrow> vendor_unsubscribe (onSnapshot_calls u')
                         (snd (onSnapshot t (stores_made u) u')))"
proof -
  from fresh_read[of "fst (writable x st u)" u'] obtain k s1 w1 s2 where
    "subscribe (fst (writable x st u)) u' = (k, s1, w1, [(k, x)])"
    "unsubscriber k s1 w1 =
       Inr (s2, case notifier_target st of
                  None \<Rightarrow> u'
                | Some t \<Rightarrow> vendor_unsubscribe (onSnapshot_calls u')
                              (snd (onSnapshot t (stores_made u) u')))"
    by (auto simp: writable_fields cong: option.case_cong)
  then show ?thesis by (simp add: captured_def)
qed

lemma getDocValue_eq:
  "getDocValue v f r sw w =
     (case docStore_p v f r sw w of
        Inl e \<Rightarrow> Inl e
      | Inr (store, w1) \<Rightarrow>
          Inr (val (subscribe_d store),
               case notifier_target (start (subscribe_d store)) of
                 None \<Rightarrow> w1
               | Some t \<Rightarrow> vendor_unsubscribe (onSnapshot_calls w1)
                             (snd (onSnapshot t (stores_made w) w1))))"
  by (cases "window w"; cases f; cases "resolve_docRef v (the f) r")
     (simp_all add: getDocValue_def docStore_p_def read_fresh[unfolded writable_def, simplified]
        writable_def warn_def)

lemma getCollectionValue_eq:
  "getCollectionValue v f r sw w =
     (case collectionStore_p v f r sw w of
        Inl e \<Rightarrow> Inl e
      | Inr (store, w1) \<Rightarrow>
          Inr (val (subscribe_c store),
               case notifier_target (start (subscribe_c store)) of
                 None \<Rightarrow> w1
               | Some t \<Rightarrow> vendor_unsubscribe (onSnapshot_calls w1)
                             (snd (onSnapshot t (stores_made w) w1))))"
  by (cases "window w"; cases f; cases "resolve_colRef v (the f) r")
     (simp_all add: getCollectionValue_def collectionStore_p_def
        read_fresh[unfolded writable_def, simplified] writable_def warn_def)

text \<open>
  Claim C10. \<^verbatim>\<open>getDocValue\<close> and \<^verbatim>\<open>getCollectionValue\<close> subscribe to the store,
  take the one value passed at subscription, call the unsubscriber and return that value: in
  every branch the result is the value the store had when it was made, and an error only
  when the adapter fails. On a server that is \<^verbatim>\<open>startWith\<close> and without a Firestore
  instance null or the empty array, the client untouched in both. In the live branch it is
  \<^verbatim>\<open>startWith\<close>: one listener is registered and its unsubscribe function is invoked
  before the function returns, so no snapshot is ever read.
\<close>

theorem one_shot_read:
  "map_sum id fst (getDocValue v f r sw w) =
     map_sum id (val \<circ> subscribe_d \<circ> fst) (docStore_p v f r sw w) \<and>
   map_sum id fst (getCollectionValue v f q sw w) =
     map_sum id (val \<circ> subscribe_c \<circ> fst) (collectionStore_p v f q sw w) \<and>
   (\<not> window w \<longrightarrow>
      (\<exists>w'. getDocValue v f r sw w = Inr (sw, w') \<and> untouched w w') \<and>
      (\<exists>w'. getCollectionValue v f q sw w = Inr (sw, w') \<and> untouched w w')) \<and>
   (window w \<longrightarrow>
      (\<exists>w'. getDocValue v None r sw w = Inr (Null, w') \<and> untouched w w') \<and>
      (\<exists>w'. getCollectionValue v None q sw w = Inr (JArr [], w') \<and> untouched w w') \<and>
      (case resolve_docRef v fs r of
         Inl e \<Rightarrow> getDocValue v (Some fs) r sw w = Inl e
       | Inr d \<Rightarrow>
           \<exists>w'. getDocValue v (Some fs) r sw w = Inr (sw, w') \<and>
                onSnapshot_calls w' = Suc (onSnapshot_calls w) \<and>
                cancelled w' = cancelled w @ [onSnapshot_calls w] \<and>
                listeners w' = filter (\<lambda>e. fst e \<noteq> onSnapshot_calls w) (listeners w)) \<and>
      (case resolve_colRef v fs q of
         Inl e \<Rightarrow> getCollectionValue v (Some fs) q sw w = Inl e
       | Inr c \<Rightarrow>
           \<exists>w'. getCollectionValue v (Some fs) q sw w = Inr (sw, w') \<and>
                onSnapshot_calls w' = Suc (onSnapshot_calls w) \<and>
                cancelled w' = cancelled w @ [onSnapshot_calls w] \<and>
                listeners w' = filter (\<lambda>e. fst e \<noteq> onSnapshot_calls w) (listeners w)))"
proof (intro conjI impI)
  show "map_sum id fst (getDocValue v f r sw w) =
     map_sum id (val \<circ> subscribe_d \<circ> fst) (docStore_p v f r sw w)"
    by (cases "docStore_p v f r sw w") (auto simp: getDocValue_eq)
  show "map_sum id fst (getCollectionValue v f q sw w) =
     map_sum id (val \<circ> subscribe_c \<circ> fst) (collectionStore_p v f q sw w)"
    by (cases "collectionStore_p v f q sw w") (auto simp: getCollectionValue_eq)
next
  assume "\<not> window w"
  then show "\<exists>w'. getDocValue v f r sw w = Inr (sw, w') \<and> untouched w w'"
    and "\<exists>w'. getCollectionValue v f q sw w = Inr (sw, w') \<and> untouched w w'"
    by (simp_all add: getDocValue_eq getCollectionValue_eq docStore_p_ssr collectionStore_p_ssr
        writable_fields untouched_def)
next
  assume h: "window w"
  then show "\<exists>w'. getDocValue v None r sw w = Inr (Null, w') \<and> untouched w w'"
    and "\<exists>w'. getCollectionValue v None q sw w = Inr (JArr [], w') \<and> untouched w w'"
    by (simp_all add: getDocValue_eq getCollectionValue_eq docStore_p_missing
        collectionStore_p_missing writable_fields untouched_def)
  from h show "case resolve_docRef v fs r of
         Inl e \<Rightarrow> getDocValue v (Some fs) r sw w = Inl e
       | Inr d \<Rightarrow>
           \<exists>w'. getDocValue v (Some fs) r sw w = Inr (sw, w') \<and>
                onSnapshot_calls w' = Suc (onSnapshot_calls w) \<and>
                cancelled w' = cancelled w @ [onSnapshot_calls w] \<and>
                listeners w' = filter (\<lambda>e. fst e \<noteq> onSnapshot_calls w) (listeners w)"
    by (cases "resolve_docRef v fs r")
       (simp_all add: getDocValue_eq docStore_p_live writable_fields vendor_unsubscribe_def
          onSnapshot_def Let_def)
  from h show "case resolve_colRef v fs q of
         Inl e \<Rightarrow> getCollectionValue v (Some fs) q sw w = Inl e
       | Inr c \<Rightarrow>
           \<exists>w'. getCollectionValue v (Some fs) q sw w = Inr (sw, w') \<and>
                onSnapshot_calls w' = Suc (onSnapshot_calls w) \<and>
                cancelled w' = cancelled w @ [onSnapshot_calls w] \<and>
                listeners w' = filter (\<lambda>e. fst e \<noteq> onSnapshot_calls w) (listeners w)"
    by (cases "resolve_colRef v fs q")
       (simp_all add: getCollectionValue_eq collectionStore_p_live writable_fields
          vendor_unsubscribe_def onSnapshot_def Let_def)
qed

text \<open>
  In the browser: a document with a default, a collection without one, a path the SDK
  rejects, and a document read without a Firestore instance. On the server: a document with
  a default.
\<close>

theorem one_shot_read_witness:
  "window browser \<and> \<not> window server \<and>
   getDocValue sample_sdk (Some app) (Path ''users/ada'') (JStr ''wait'') browser =
     Inr (JStr ''wait'', browser\<lparr>stores_made := 1, onSnapshot_calls := 1, cancelled := [0]\<rparr>) \<and>
   getCollectionValue sample_sdk (Some app) (Path ''users'') Undefined browser =
     Inr (Undefined, browser\<lparr>stores_made := 1, onSnapshot_calls := 1, cancelled := [0]\<rparr>) \<and>
   getDocValue sample_sdk (Some app) (Path []) (JStr ''wait'') browser = Inl FirestoreError \<and>
   (\<exists>w'. getDocValue sample_sdk None (Path ''users/ada'') (JStr ''wait'') browser = Inr (Null, w') \<and>
         untouched browser w') \<and>
   (\<exists>w'. getDocValue sample_sdk (Some app) (Path ''users/ada'') (JStr ''wait'') server =
           Inr (JStr ''wait'', w') \<and> untouched server w')"
proof -
  have h: "window browser" and k: "\<not> window server"
    by (simp_all add: browser_def server_def)
  have d: "resolve_docRef sample_sdk app (Path ''users/ada'') = Inr ada"
      "resolve_docRef sample_sdk app (Path []) = Inl FirestoreError"
      "resolve_colRef sample_sdk app (Path ''users'') = Inr users"
    by (simp_all add: resolve_docRef_def resolve_colRef_def sample_sdk_def ada_def users_def)
  have e: "getDocValue sample_sdk (Some app) (Path ''users/ada'') (JStr ''wait'') browser =
     Inr (JStr ''wait'', browser\<lparr>stores_made := 1, onSnapshot_calls := 1, cancelled := [0]\<rparr>)"
    using h d
    by (simp add: getDocValue_eq docStore_p_live writable_fields vendor_unsubscribe_def
        onSnapshot_def browser_def Let_def)
  have c: "getCollectionValue sample_sdk (Some app) (Path ''users'') Undefined browser =
     Inr (Undefined, browser\<lparr>stores_made := 1, onSnapshot_calls := 1, cancelled := [0]\<rparr>)"
    using h d
    by (simp add: getCollectionValue_eq collectionStore_p_live writable_fields vendor_unsubscribe_def
        onSnapshot_def browser_def Let_def)
  show ?thesis
    using h k e c d
      one_shot_read[of sample_sdk "Some app" "Path []" "JStr ''wait''" browser "Path ''users''" app]
      one_shot_read[of sample_sdk "Some app" "Path ''users/ada''" "JStr ''wait''" browser
        "Path ''users''" app]
      one_shot_read[of sample_sdk "Some app" "Path ''users/ada''" "JStr ''wait''" server
        "Path ''users''" app]
    by simp
qed

section \<open>The derived store: lemmas and the claim\<close>




lemma wf_world_console: "wf_world w \<Longrightarrow> wf_world (w\<lparr>console := c\<rparr>)"
  by (auto simp: wf_world_def list_all_iff)






















end
